theory Spec2Isabelle
  imports Complex_Main
begin

section \<open>Python decimals under the default context\<close>

text \<open>
  \<^verbatim>\<open>eterpay/utils.py\<close> and \<^verbatim>\<open>bitcoin/views.py\<close> compute fees with
  \<^verbatim>\<open>decimal.Decimal\<close> and never change the arithmetic context, so every operation
  runs under Python's default context: \<^verbatim>\<open>prec=28\<close>, \<^verbatim>\<open>rounding=ROUND_HALF_EVEN\<close>,
  \<^verbatim>\<open>Emin=-999999\<close>, \<^verbatim>\<open>Emax=999999\<close>, \<^verbatim>\<open>clamp=0\<close>, with the traps
  \<^verbatim>\<open>InvalidOperation\<close>, \<^verbatim>\<open>DivisionByZero\<close> and \<^verbatim>\<open>Overflow\<close> enabled: these
  three raise, while underflow, rounding and clamping only set flags.

  A finite decimal is a signed integer coefficient and a power-of-ten exponent;
  \<open>Decimal c e\<close> denotes \<open>c * 10 ^ e\<close>. Besides the finite values a \<^verbatim>\<open>Decimal\<close> is
  an infinity (\<open>Infinity True\<close> is the negative one), a quiet NaN or a signalling NaN.
  The constructor \<^verbatim>\<open>Decimal(str(v))\<close> is exact: it applies no context, so a finite
  value may have any number of digits and an exponent outside the context's range.
  (The bounds of the implementation itself on a constructed value, exponents of 18
  digits, are not represented: every value that Python builds is a value here.)
  Multiplication, division and subtraction compute the exact result and then fit it to
  the context (\<^verbatim>\<open>Decimal._fix\<close>). The sign of a zero and the sign and payload of a NaN
  are not represented: no value, comparison or exception of the code depends on them.
\<close>

datatype finite = Decimal (coeff: int) (expo: int)

datatype decimal = Finite finite | Infinity bool | NaN | SNaN

definition dval :: "finite \<Rightarrow> rat" where
  "dval x = (if 0 \<le> expo x then of_int (coeff x * 10 ^ nat (expo x))
             else of_int (coeff x) / of_int (10 ^ nat (- expo x)))"

definition context_prec :: nat where
  "context_prec = 28"

definition Emax :: int where
  "Emax = 999999"

definition Emin :: int where
  "Emin = - 999999"

text \<open>\<^verbatim>\<open>Context.Etiny()\<close> and \<^verbatim>\<open>Context.Etop()\<close>.\<close>

definition Etiny :: int where
  "Etiny = Emin - int context_prec + 1"

definition Etop :: int where
  "Etop = Emax - int context_prec + 1"

text \<open>
  Exceptions that leave a function or a view uncaught (the framework answers a view's
  exception with a server error). \<open>Overflow\<close> and \<open>InvalidOperation\<close> are the decimal
  module's; \<open>InvalidOperation\<close> is also what the constructor raises for a string that is
  no number.
\<close>

datatype exn =
    MultipleObjectsReturned
  | JSONDecodeError
  | KeyError
  | InvalidOperation
  | Overflow
  | NameError

text \<open>\<^verbatim>\<open>len(str(n))\<close> for a coefficient \<open>n\<close>: the number of decimal digits, 1 for zero.\<close>

fun ndigits :: "nat \<Rightarrow> nat" where
  "ndigits n = (if n < 10 then 1 else Suc (ndigits (n div 10)))"

declare ndigits.simps [simp del]

text \<open>\<^verbatim>\<open>Decimal.adjusted()\<close>: the exponent of the most significant digit.\<close>

definition adjusted :: "finite \<Rightarrow> int" where
  "adjusted x = int (ndigits (nat \<bar>coeff x\<bar>)) + expo x - 1"

text \<open>
  Dropping the last \<open>d\<close> digits of \<open>n\<close> with ROUND_HALF_EVEN: up when the dropped part is
  more than half a unit of the kept part, or exactly half and the kept part is odd. When
  all digits are dropped (\<open>d\<close> at least the number of digits) the kept part is 0.
\<close>

definition round_half_even :: "nat \<Rightarrow> nat \<Rightarrow> nat" where
  "round_half_even n d =
     (let q = n div 10 ^ d; r = n mod 10 ^ d
      in if 10 ^ d < 2 * r \<or> (2 * r = 10 ^ d \<and> odd q) then q + 1 else q)"

text \<open>
  \<^verbatim>\<open>Decimal._fix\<close> on a finite value, following its branches:
  \<^item> a zero keeps its value and has its exponent brought into \<open>[Etiny, Emax]\<close>;
  \<^item> \<open>exp_min\<close> is the smallest exponent the result may have: the exponent that leaves
    28 digits, but not below \<open>Etiny\<close>; if it is above \<open>Etop\<close> the value is beyond
    \<open>Emax\<close> and \<open>Overflow\<close> is raised;
  \<^item> a value whose exponent is below \<open>exp_min\<close> loses the digits below it, rounded
    half-even; when rounding up carries into a 29th digit the last zero is dropped and
    the exponent grows by one, which can again raise \<open>Overflow\<close>;
  \<^item> any other value is returned as it is.
\<close>

definition dfix :: "finite \<Rightarrow> exn + finite" where
  "dfix x =
     (if coeff x = 0 then Inr (Decimal 0 (min (max (expo x) Etiny) Emax))
      else
        let n = nat \<bar>coeff x\<bar>;
            exp_min0 = int (ndigits n) + expo x - int context_prec
        in if Etop < exp_min0 then Inl Overflow
           else
             let exp_min = max exp_min0 Etiny
             in if expo x < exp_min then
                  let q = round_half_even n (nat (exp_min - expo x))
                  in if context_prec < ndigits q then
                       (if Etop < exp_min + 1 then Inl Overflow
                        else Inr (Decimal (sgn (coeff x) * int (q div 10)) (exp_min + 1)))
                     else Inr (Decimal (sgn (coeff x) * int q) exp_min)
                else Inr x)"

definition finite_result :: "exn + finite \<Rightarrow> exn + decimal" where
  "finite_result r = (case r of Inl e \<Rightarrow> Inl e | Inr y \<Rightarrow> Inr (Finite y))"

text \<open>
  \<^verbatim>\<open>a * b\<close>. A signalling NaN operand raises \<open>InvalidOperation\<close>, otherwise a NaN
  operand gives NaN; infinity times zero raises \<open>InvalidOperation\<close>, infinity times
  anything else is an infinity with the product's sign; finite coefficients multiply,
  exponents add, and the result is fitted to the context.
\<close>

fun dmul :: "decimal \<Rightarrow> decimal \<Rightarrow> exn + decimal" where
  "dmul SNaN b = Inl InvalidOperation"
| "dmul a SNaN = Inl InvalidOperation"
| "dmul NaN b = Inr NaN"
| "dmul a NaN = Inr NaN"
| "dmul (Infinity s) (Infinity t) = Inr (Infinity (s \<noteq> t))"
| "dmul (Infinity s) (Finite y) =
     (if coeff y = 0 then Inl InvalidOperation else Inr (Infinity (s \<noteq> (coeff y < 0))))"
| "dmul (Finite x) (Infinity t) =
     (if coeff x = 0 then Inl InvalidOperation else Inr (Infinity ((coeff x < 0) \<noteq> t)))"
| "dmul (Finite x) (Finite y) =
     finite_result (dfix (Decimal (coeff x * coeff y) (expo x + expo y)))"

text \<open>
  \<^verbatim>\<open>a / 100\<close>. The quotient of a finite \<open>a\<close> by 100 is always a finite decimal,
  \<open>coeff a * 10 ^ (expo a - 2)\<close>; Python returns it correctly rounded, with the exponent
  as close to \<open>expo a\<close> as the trailing zeros of the coefficient allow, and fitted to the
  context.
\<close>

fun ddiv100 :: "decimal \<Rightarrow> exn + decimal" where
  "ddiv100 SNaN = Inl InvalidOperation"
| "ddiv100 NaN = Inr NaN"
| "ddiv100 (Infinity s) = Inr (Infinity s)"
| "ddiv100 (Finite a) =
     finite_result
       (dfix (if coeff a mod 100 = 0 then Decimal (coeff a div 100) (expo a)
              else if coeff a mod 10 = 0 then Decimal (coeff a div 10) (expo a - 1)
              else Decimal (coeff a) (expo a - 2)))"

text \<open>
  \<^verbatim>\<open>a - b\<close>. NaNs as for the product; the difference of two infinities of the same
  sign raises \<open>InvalidOperation\<close>; finite operands are aligned to the smaller exponent,
  subtracted, and the result is fitted to the context.
\<close>

fun dsub :: "decimal \<Rightarrow> decimal \<Rightarrow> exn + decimal" where
  "dsub SNaN b = Inl InvalidOperation"
| "dsub a SNaN = Inl InvalidOperation"
| "dsub NaN b = Inr NaN"
| "dsub a NaN = Inr NaN"
| "dsub (Infinity s) (Infinity t) = (if s = t then Inl InvalidOperation else Inr (Infinity s))"
| "dsub (Infinity s) (Finite y) = Inr (Infinity s)"
| "dsub (Finite x) (Infinity t) = Inr (Infinity (\<not> t))"
| "dsub (Finite x) (Finite y) =
     (let m = min (expo x) (expo y)
      in finite_result
           (dfix (Decimal (coeff x * 10 ^ nat (expo x - m) - coeff y * 10 ^ nat (expo y - m)) m)))"

text \<open>
  What \<open>dfix\<close> does to the value, apart from raising \<open>Overflow\<close>: with \<open>t\<close> the number
  of digits that lie below \<open>Etiny\<close>, \<open>round_units t n\<close> is the magnitude \<open>n\<close> with the
  digits beyond the 28th and the digits below \<open>Etiny\<close> rounded away, padded back with
  zeros; \<open>round_coeff\<close> carries the sign, and \<open>rounded x\<close> is the resulting value. \<open>dfix x\<close>
  returns a decimal of value \<open>rounded x\<close> when the magnitude of \<open>rounded x\<close> is below
  \<open>10 ^ (Emax + 1)\<close> and raises otherwise (lemmas \<open>dfix_returns\<close>, \<open>dfix_raises\<close>).
\<close>

definition round_units :: "int \<Rightarrow> nat \<Rightarrow> nat" where
  "round_units t n =
     (let d = nat (max (int (ndigits n) - int context_prec) t)
      in round_half_even n d * 10 ^ d)"

definition round_coeff :: "int \<Rightarrow> int \<Rightarrow> int" where
  "round_coeff t c = sgn c * int (round_units t (nat \<bar>c\<bar>))"

definition rounded :: "finite \<Rightarrow> rat" where
  "rounded x = of_int (round_coeff (Etiny - expo x) (coeff x)) * 10 powi expo x"

text \<open>
  A finite decimal that the context holds with two exponents to spare below: at most 28
  digits, exponent at least \<open>Etiny + 2\<close>, most significant digit at most at \<open>Emax\<close>.
\<close>

definition fits :: "finite \<Rightarrow> bool" where
  "fits x \<longleftrightarrow>
     ndigits (nat \<bar>coeff x\<bar>) \<le> context_prec \<and> Etiny + 2 \<le> expo x \<and> adjusted x \<le> Emax"

section \<open>eterpay/utils.py\<close>

text \<open>
  \<^verbatim>\<open>def get_price_fee(price, percent):
      return Decimal(str(price)) * (Decimal(str(percent)) / 100)\<close>
  The callers pass \<^verbatim>\<open>Decimal\<close> values, and \<^verbatim>\<open>Decimal(str(d))\<close> of a decimal \<open>d\<close>
  is \<open>d\<close> again. The quotient is evaluated before the product, so its exception comes
  first. The function checks nothing about its arguments.
\<close>

definition get_price_fee :: "decimal \<Rightarrow> decimal \<Rightarrow> exn + decimal" where
  "get_price_fee price percent =
     (case ddiv100 percent of Inl e \<Rightarrow> Inl e | Inr q \<Rightarrow> dmul price q)"

text \<open>
  Modelled from the spec: \<^verbatim>\<open>bitcoin/models.py\<close> (the \<^verbatim>\<open>BitcoinInvoice\<close> model) is
  not among the sources. The record has the fields that \<^verbatim>\<open>create_invoice\<close> sets and
  the spec's Invoice lists: id, owner, amount owed, key material, address.
\<close>

record invoice =
  inv_uuid :: string
  inv_user :: string
  inv_amount :: decimal
  inv_key :: string
  inv_address :: string

text \<open>
  \<^verbatim>\<open>def get_object_or_none(klass, *args, **kwargs):
      try:
          return klass.objects.get(*args, **kwargs)
      except ObjectDoesNotExist:
          return\<close>
  \<open>objects\<close> is the table of invoices. \<^verbatim>\<open>get\<close> returns the single row that matches,
  raises \<^verbatim>\<open>DoesNotExist\<close> (caught here, giving \<^verbatim>\<open>None\<close>) when no row matches and
  \<^verbatim>\<open>MultipleObjectsReturned\<close> (not caught) when several do. Every view calls it with
  \<^verbatim>\<open>user=request.user, uuid=uuid\<close>.
\<close>

definition get_object_or_none :: "invoice list \<Rightarrow> string \<Rightarrow> string \<Rightarrow> exn + invoice option" where
  "get_object_or_none objects usr uid =
     (case filter (\<lambda>i. inv_user i = usr \<and> inv_uuid i = uid) objects of
        [] \<Rightarrow> Inr None
      | [i] \<Rightarrow> Inr (Some i)
      | _ \<Rightarrow> Inl MultipleObjectsReturned)"

section \<open>bitcoin/views.py\<close>

text \<open>
  The payload of a \<^verbatim>\<open>Response\<close>. The two messages of \<^verbatim>\<open>check_invoice\<close> that
  interpolate numbers carry the numbers:
  \<^item> \<open>NoData\<close>: \<^verbatim>\<open>Response()\<close>;
  \<^item> \<open>ErrorMsg m\<close>: \<^verbatim>\<open>{'error': m}\<close>;
  \<^item> \<open>PayedAmountIsLess a b\<close>: \<^verbatim>\<open>{'error': 'Payed amount is less (a < b)'}\<close>;
  \<^item> \<open>PaymentNotConfirmed a b\<close>: \<^verbatim>\<open>{'error': 'Payment is not confirmed yet (a < b)'}\<close>;
  \<^item> \<open>FatalError m\<close>: \<^verbatim>\<open>{'error': 'Fatal error occurred: m'}\<close>;
  \<^item> \<open>TxId t\<close>: \<^verbatim>\<open>{'id': t}\<close>;
  \<^item> \<open>InvoiceData i\<close>: \<^verbatim>\<open>InvoiceSerializer(i).data\<close>.
  A response without an explicit status has status 200.
\<close>

datatype body =
    NoData
  | ErrorMsg string
  | PayedAmountIsLess int int
  | PaymentNotConfirmed int int
  | FatalError string
  | TxId string
  | InvoiceData invoice

datatype response = Response body nat

definition not_found :: response where
  "not_found = Response (ErrorMsg ''UUID does not belong to any of the invoices.'') 400"

text \<open>\<^verbatim>\<open>django.conf.settings\<close>: the network selector and the confirmation threshold.\<close>

record settings =
  TEST :: bool
  BTC_CONFIRMATIONS :: int

text \<open>An unspent output as the wallet library reports it: satoshis and confirmations.\<close>

record unspent =
  amount :: int
  confirmations :: int

text \<open>
  \<^verbatim>\<open>delete_invoice\<close>: the view returns its response and leaves the table as it is,
  or without the invoice it found.
\<close>

definition delete_invoice ::
  "invoice list \<Rightarrow> string \<Rightarrow> string \<Rightarrow> (exn + response) \<times> invoice list" where
  "delete_invoice objects usr uid =
     (case get_object_or_none objects usr uid of
        Inl e \<Rightarrow> (Inl e, objects)
      | Inr None \<Rightarrow> (Inr not_found, objects)
      | Inr (Some invoice) \<Rightarrow> (Inr (Response NoData 200), remove1 invoice objects))"

definition invoice_details ::
  "invoice list \<Rightarrow> string \<Rightarrow> string \<Rightarrow> (exn + response) \<times> invoice list" where
  "invoice_details objects usr uid =
     (case get_object_or_none objects usr uid of
        Inl e \<Rightarrow> (Inl e, objects)
      | Inr None \<Rightarrow> (Inr not_found, objects)
      | Inr (Some invoice) \<Rightarrow> (Inr (Response (InvoiceData invoice) 200), objects))"

text \<open>
  \<^verbatim>\<open>check_invoice\<close>. \<open>get_unspents\<close> is the wallet library's fetch for the wallet built
  from \<^verbatim>\<open>settings.TEST\<close> and \<^verbatim>\<open>invoice.key\<close>; \<open>currency_to_satoshi_cached\<close> is the
  library's conversion of the owed amount, called with \<^verbatim>\<open>'btc'\<close>. The view reads
  \<^verbatim>\<open>utxo[-1]\<close> inside \<^verbatim>\<open>if len(utxo) > 0\<close>.
\<close>

definition check_invoice ::
  "settings \<Rightarrow> (bool \<Rightarrow> string \<Rightarrow> unspent list) \<Rightarrow> (decimal \<Rightarrow> int) \<Rightarrow>
   invoice list \<Rightarrow> string \<Rightarrow> string \<Rightarrow> exn + response" where
  "check_invoice st get_unspents currency_to_satoshi_cached objects usr uid =
     (case get_object_or_none objects usr uid of
        Inl e \<Rightarrow> Inl e
      | Inr None \<Rightarrow> Inr not_found
      | Inr (Some invoice) \<Rightarrow>
          (let utxo = get_unspents (TEST st) (inv_key invoice)
           in if 0 < length utxo then
                (let last_utxo = last utxo;
                     invoice_amount = currency_to_satoshi_cached (inv_amount invoice)
                 in if amount last_utxo < invoice_amount
                    then Inr (Response (PayedAmountIsLess (amount last_utxo) invoice_amount) 400)
                    else if confirmations last_utxo < BTC_CONFIRMATIONS st
                    then Inr (Response (PaymentNotConfirmed (confirmations last_utxo)
                                          (BTC_CONFIRMATIONS st)) 400)
                    else Inr (Response NoData 200))
              else Inr (Response (ErrorMsg ''Amount is not payed'') 400)))"

text \<open>
  A value of the parsed request body as \<^verbatim>\<open>Decimal(str(v))\<close> sees it: \<open>JNum d\<close> converts
  to the decimal \<open>d\<close> (an integer, a float or a numeric string; \<^verbatim>\<open>json.loads\<close> reads
  \<^verbatim>\<open>1e999\<close>, \<^verbatim>\<open>Infinity\<close> and \<^verbatim>\<open>NaN\<close> as floats that convert to an infinity or a
  NaN, and the strings \<^verbatim>\<open>'Infinity'\<close>, \<^verbatim>\<open>'NaN'\<close>, \<^verbatim>\<open>'sNaN'\<close> convert too);
  \<open>JOther\<close> is any value for which the constructor raises.
\<close>

datatype jvalue = JNum decimal | JOther

definition to_Decimal :: "jvalue \<Rightarrow> exn + decimal" where
  "to_Decimal v = (case v of JNum d \<Rightarrow> Inr d | JOther \<Rightarrow> Inl InvalidOperation)"

type_synonym payout = "string \<times> decimal \<times> string"

text \<open>
  The loop of \<^verbatim>\<open>release_invoice\<close> over the parsed body, a dict in insertion order
  (an association list with distinct keys) from vendor to an inner dict:
  \<^verbatim>\<open>for vendor in vendors:
      amount = Decimal(str(vendors[vendor]['amount']))
      fee = Decimal(str(vendors[vendor]['fee']))
      estimated_fee = get_price_fee(amount, fee)
      outputs.append((vendor, amount - estimated_fee, 'btc'))\<close>
  \<open>g\<close> is what the global name \<^verbatim>\<open>get_price_fee\<close> is bound to in the module
  \<^verbatim>\<open>bitcoin.views\<close>; an unbound name raises \<^verbatim>\<open>NameError\<close> when the call is reached.
  An exception of the call or of the subtraction leaves the loop.
\<close>

fun release_outputs ::
  "(decimal \<Rightarrow> decimal \<Rightarrow> exn + decimal) option \<Rightarrow>
   (string \<times> (string \<rightharpoonup> jvalue)) list \<Rightarrow> payout list \<Rightarrow> exn + payout list" where
  "release_outputs g [] outputs = Inr outputs"
| "release_outputs g ((vendor, entry) # vendors) outputs =
     (case entry ''amount'' of
        None \<Rightarrow> Inl KeyError
      | Some a \<Rightarrow>
          (case to_Decimal a of
             Inl e \<Rightarrow> Inl e
           | Inr amount_d \<Rightarrow>
               (case entry ''fee'' of
                  None \<Rightarrow> Inl KeyError
                | Some f \<Rightarrow>
                    (case to_Decimal f of
                       Inl e \<Rightarrow> Inl e
                     | Inr fee_d \<Rightarrow>
                         (case g of
                            None \<Rightarrow> Inl NameError
                          | Some price_fee \<Rightarrow>
                              (case price_fee amount_d fee_d of
                                 Inl e \<Rightarrow> Inl e
                               | Inr estimated_fee \<Rightarrow>
                                   (case dsub amount_d estimated_fee of
                                      Inl e \<Rightarrow> Inl e
                                    | Inr net \<Rightarrow>
                                        release_outputs g vendors
                                          (outputs @ [(vendor, net, ''btc'')]))))))))"

text \<open>
  The module \<^verbatim>\<open>bitcoin.views\<close> as written: its only import from
  \<^verbatim>\<open>eterpay.utils\<close> is \<^verbatim>\<open>get_object_or_none\<close>, and it defines no
  \<^verbatim>\<open>get_price_fee\<close> of its own, so the name is unbound in its globals.
\<close>

definition views_globals :: "(decimal \<Rightarrow> decimal \<Rightarrow> exn + decimal) option" where
  "views_globals = None"

text \<open>
  \<^verbatim>\<open>release_invoice\<close>. \<open>send\<close> is \<^verbatim>\<open>wallet.send\<close> of the wallet built from
  \<^verbatim>\<open>settings.TEST\<close> and \<^verbatim>\<open>invoice.key\<close>: it returns a transaction id (\<open>Inr\<close>) or
  raises (\<open>Inl\<close>, the exception's text), which the view catches. \<open>body\<close> is the request
  body after \<^verbatim>\<open>json.loads\<close>, \<open>None\<close> when it is not JSON. The second component of the
  result lists the calls of \<^verbatim>\<open>wallet.send\<close> the view made, with their arguments.
\<close>

definition release_invoice ::
  "settings \<Rightarrow> (decimal \<Rightarrow> decimal \<Rightarrow> exn + decimal) option \<Rightarrow>
   (bool \<Rightarrow> string \<Rightarrow> payout list \<Rightarrow> string + string) \<Rightarrow>
   invoice list \<Rightarrow> string \<Rightarrow> string \<Rightarrow> (string \<times> (string \<rightharpoonup> jvalue)) list option \<Rightarrow>
   (exn + response) \<times> payout list list" where
  "release_invoice st g send objects usr uid body =
     (case get_object_or_none objects usr uid of
        Inl e \<Rightarrow> (Inl e, [])
      | Inr None \<Rightarrow> (Inr not_found, [])
      | Inr (Some invoice) \<Rightarrow>
          (case body of
             None \<Rightarrow> (Inl JSONDecodeError, [])
           | Some vendors \<Rightarrow>
               (case release_outputs g vendors [] of
                  Inl e \<Rightarrow> (Inl e, [])
                | Inr outputs \<Rightarrow>
                    (case send (TEST st) (inv_key invoice) outputs of
                       Inr txid \<Rightarrow> (Inr (Response (TxId txid) 200), [outputs])
                     | Inl msg \<Rightarrow> (Inr (Response (FatalError msg) 400), [outputs])))))"

text \<open>
  A disbursement request as the spec types it, vendor to a finite amount and a finite fee
  rate, written as the parsed body the view reads: the inner dict has the keys
  \<^verbatim>\<open>'amount'\<close> and \<^verbatim>\<open>'fee'\<close>.
\<close>

definition entry_of :: "finite \<Rightarrow> finite \<Rightarrow> (string \<rightharpoonup> jvalue)" where
  "entry_of a f = [''amount'' \<mapsto> JNum (Finite a), ''fee'' \<mapsto> JNum (Finite f)]"

definition request_of ::
  "(string \<times> finite \<times> finite) list \<Rightarrow> (string \<times> (string \<rightharpoonup> jvalue)) list" where
  "request_of reqs = map (\<lambda>(v, a, f). (v, entry_of a f)) reqs"

section \<open>Sample data\<close>

definition invoice1 :: invoice where
  "invoice1 = \<lparr>inv_uuid = ''0a1b'', inv_user = ''alice'', inv_amount = Finite (Decimal 1 (-2)),
                inv_key = ''key1'', inv_address = ''addr1''\<rparr>"

definition settings3 :: settings where
  "settings3 = \<lparr>TEST = True, BTC_CONFIRMATIONS = 3\<rparr>"

text \<open>A wallet whose \<^verbatim>\<open>send\<close> always succeeds.\<close>

definition send_ok :: "bool \<Rightarrow> string \<Rightarrow> payout list \<Rightarrow> string + string" where
  "send_ok test_net key outputs = Inr ''txid1''"

section \<open>Digits and rounding\<close>

lemma ndigits_pos: "0 < ndigits n"
  by (subst ndigits.simps) simp

lemma ndigits_upper: "n < 10 ^ ndigits n"
proof (induction n rule: ndigits.induct)
  case (1 n)
  show ?case
  proof (cases "n < 10")
    case True
    then show ?thesis by (subst ndigits.simps) simp
  next
    case False
    with 1 have "n div 10 < 10 ^ ndigits (n div 10)" by simp
    then have "n < 10 * 10 ^ ndigits (n div 10)" by simp
    with False show ?thesis by (subst ndigits.simps) simp
  qed
qed

lemma ndigits_lower: "0 < n \<Longrightarrow> 10 ^ (ndigits n - 1) \<le> n"
proof (induction n rule: ndigits.induct)
  case (1 n)
  show ?case
  proof (cases "n < 10")
    case True
    with 1 show ?thesis by (subst ndigits.simps) simp
  next
    case False
    then have "0 < n div 10" by simp
    with 1 False have "10 ^ (ndigits (n div 10) - 1) \<le> n div 10" by simp
    then have "10 * 10 ^ (ndigits (n div 10) - 1) \<le> n" by simp
    moreover have "ndigits n - 1 = Suc (ndigits (n div 10) - 1)"
      using False ndigits_pos [of "n div 10"] by (subst ndigits.simps) simp
    ultimately show ?thesis by simp
  qed
qed

lemma ndigits_eqI:
  assumes "10 ^ k \<le> n" and "n < 10 ^ Suc k"
  shows "ndigits n = Suc k"
proof -
  have "(10::nat) ^ k < 10 ^ ndigits n"
    using assms(1) ndigits_upper [of n] by (rule le_less_trans)
  then have a: "k < ndigits n" by simp
  have "0 < n" using assms(1) by (cases "n = 0") auto
  then have "(10::nat) ^ (ndigits n - 1) < 10 ^ Suc k"
    using ndigits_lower [of n] assms(2) by linarith
  then have "ndigits n - 1 < Suc k" by (simp only: power_strict_increasing_iff) 
  with a show ?thesis by linarith
qed

lemma ndigits_mono: "n \<le> m \<Longrightarrow> ndigits n \<le> ndigits m"
proof (cases "n = 0")
  case True
  then show ?thesis using ndigits_pos [of m] by (simp add: ndigits.simps)
next
  case False
  assume "n \<le> m"
  have "(10::nat) ^ (ndigits n - 1) \<le> n" using False ndigits_lower by simp
  also have "n \<le> m" by fact
  also have "m < 10 ^ ndigits m" by (rule ndigits_upper)
  finally have "ndigits n - 1 < ndigits m" by simp
  then show ?thesis by linarith
qed

lemma ndigits_mult_pow: "0 < n \<Longrightarrow> ndigits (n * 10 ^ k) = ndigits n + k"
proof -
  assume pos: "0 < n"
  have l: "10 ^ (ndigits n - 1 + k) \<le> n * 10 ^ k"
    using ndigits_lower [OF pos] by (simp add: power_add)
  have u: "n * 10 ^ k < 10 ^ Suc (ndigits n - 1 + k)"
  proof -
    have "n * 10 ^ k < 10 ^ ndigits n * 10 ^ k"
      using ndigits_upper [of n] by simp
    also have "\<dots> = 10 ^ Suc (ndigits n - 1 + k)"
      using ndigits_pos [of n] by (simp add: power_add [symmetric])
    finally show ?thesis .
  qed
  from ndigits_eqI [OF l u] ndigits_pos [of n] show ?thesis by simp
qed

lemma rhe_lower: "n div 10 ^ d \<le> round_half_even n d"
  by (simp add: round_half_even_def Let_def)

lemma rhe_upper: "round_half_even n d \<le> n div 10 ^ d + 1"
  by (simp add: round_half_even_def Let_def)

lemma rhe_exact: "round_half_even (q * 10 ^ d) d = q"
  by (simp add: round_half_even_def Let_def)

lemma rhe_scale: "round_half_even (n * 10 ^ k) (d + k) = round_half_even n d"
proof -
  have q: "(n * 10 ^ k) div 10 ^ (d + k) = n div 10 ^ d"
    by (simp add: power_add)
  have r: "(n * 10 ^ k) mod 10 ^ (d + k) = (n mod 10 ^ d) * 10 ^ k"
    by (simp add: power_add)
  have c1: "(10 ^ (d + k) < 2 * ((n mod 10 ^ d) * 10 ^ k)) = ((10::nat) ^ d < 2 * (n mod 10 ^ d))"
    by (simp add: power_add)
  have c2: "(2 * ((n mod 10 ^ d) * 10 ^ k) = 10 ^ (d + k)) = (2 * (n mod 10 ^ d) = (10::nat) ^ d)"
    by (simp add: power_add)
  show ?thesis
    unfolding round_half_even_def Let_def q r c1 c2 ..
qed

lemma rhe_mono:
  assumes "n \<le> m"
  shows "round_half_even n d \<le> round_half_even m d"
proof -
  define D :: nat where "D = 10 ^ d"
  have Dpos: "0 < D" by (simp add: D_def)
  have qle: "n div D \<le> m div D" using assms by (rule div_le_mono)
  show ?thesis
  proof (cases "n div D < m div D")
    case True
    have "round_half_even n d \<le> n div D + 1" unfolding D_def by (rule rhe_upper)
    also have "\<dots> \<le> m div D" using True by simp
    also have "\<dots> \<le> round_half_even m d" unfolding D_def by (rule rhe_lower)
    finally show ?thesis .
  next
    case False
    with qle have qeq: "n div D = m div D" by simp
    have "n mod D = n - (n div D) * D" by (simp add: minus_div_mult_eq_mod)
    moreover have "m mod D = m - (m div D) * D" by (simp add: minus_div_mult_eq_mod)
    ultimately have rle: "n mod D \<le> m mod D" using assms qeq by (simp add: diff_le_mono)
    show ?thesis
      using rle qeq unfolding round_half_even_def Let_def D_def [symmetric]
      by auto
  qed
qed

lemma context_prec_pos: "0 < context_prec"
  by (simp add: context_prec_def)

lemma ndigits_small: "n < 10 ^ k \<Longrightarrow> 0 < k \<Longrightarrow> ndigits n \<le> k"
proof (cases "n = 0")
  case True
  assume "0 < k"
  with True show ?thesis by (simp add: ndigits.simps)
next
  case False
  assume "n < 10 ^ k"
  have "(10::nat) ^ (ndigits n - 1) \<le> n" using False ndigits_lower by simp
  also have "n < 10 ^ k" by fact
  finally have "ndigits n - 1 < k" by simp
  then show ?thesis by linarith
qed

lemma rhe_none_dropped: "round_half_even n 0 = n"
  by (simp add: round_half_even_def)

lemma rhe_all_dropped: "2 * n < 10 ^ d \<Longrightarrow> round_half_even n d = 0"
  by (simp add: round_half_even_def Let_def)

lemma rhe_le_pow:
  assumes "n < 10 ^ (k + d)"
  shows "round_half_even n d \<le> 10 ^ k"
proof -
  from assms have "n < 10 ^ k * 10 ^ d" by (simp add: power_add)
  then have "n div 10 ^ d < 10 ^ k" by (simp add: less_mult_imp_div_less)
  then have "n div 10 ^ d + 1 \<le> 10 ^ k" by simp
  with rhe_upper [of n d] show ?thesis by (rule le_trans)
qed

lemma rhe_ge_pow:
  assumes "10 ^ (k + d) \<le> n"
  shows "10 ^ k \<le> round_half_even n d"
proof -
  have "(10::nat) ^ k = (10 ^ k * 10 ^ d) div 10 ^ d" by simp
  also have "\<dots> \<le> n div 10 ^ d"
    using assms unfolding power_add by (rule div_le_mono)
  also have "\<dots> \<le> round_half_even n d" by (rule rhe_lower)
  finally show ?thesis .
qed

lemma round_units_0: "round_units t 0 = 0"
  by (simp add: round_units_def round_half_even_def Let_def)

lemma round_units_id:
  "ndigits n \<le> context_prec \<Longrightarrow> t \<le> 0 \<Longrightarrow> round_units t n = n"
  by (simp add: round_units_def Let_def rhe_none_dropped)

lemma round_units_upper: "round_units t n \<le> 10 ^ ndigits n"
proof -
  define d where "d = nat (max (int (ndigits n) - int context_prec) t)"
  show ?thesis
  proof (cases "d \<le> ndigits n")
    case True
    then have "n < 10 ^ ((ndigits n - d) + d)" using ndigits_upper [of n] by simp
    then have "round_half_even n d \<le> 10 ^ (ndigits n - d)" by (rule rhe_le_pow)
    then have "round_half_even n d * 10 ^ d \<le> 10 ^ (ndigits n - d) * 10 ^ d" by simp
    also have "\<dots> = 10 ^ ndigits n" using True by (simp add: power_add [symmetric])
    finally show ?thesis by (simp add: round_units_def d_def [symmetric] Let_def)
  next
    case False
    then have "Suc (ndigits n) \<le> d" by simp
    then have "(10::nat) ^ Suc (ndigits n) \<le> 10 ^ d" by (rule power_increasing) simp
    moreover have "2 * n < 10 ^ Suc (ndigits n)" using ndigits_upper [of n] by simp
    ultimately have "2 * n < 10 ^ d" by simp
    then have "round_half_even n d = 0" by (rule rhe_all_dropped)
    then show ?thesis by (simp add: round_units_def d_def [symmetric] Let_def)
  qed
qed

lemma round_units_lower:
  assumes "0 < n" and "t \<le> int (ndigits n) - int context_prec"
  shows "10 ^ (ndigits n - 1) \<le> round_units t n"
proof -
  define d where "d = nat (int (ndigits n) - int context_prec)"
  have dd: "nat (max (int (ndigits n) - int context_prec) t) = d"
    using assms(2) by (simp add: d_def max_def)
  have "d \<le> ndigits n - 1" using context_prec_pos by (simp add: d_def)
  then have split: "ndigits n - 1 = (ndigits n - 1 - d) + d" by simp
  have "10 ^ ((ndigits n - 1 - d) + d) \<le> n"
    using ndigits_lower [OF assms(1)] split by simp
  then have "10 ^ (ndigits n - 1 - d) \<le> round_half_even n d" by (rule rhe_ge_pow)
  then have "10 ^ (ndigits n - 1 - d) * 10 ^ d \<le> round_half_even n d * 10 ^ d" by simp
  then have "10 ^ ((ndigits n - 1 - d) + d) \<le> round_half_even n d * 10 ^ d"
    by (simp only: power_add)
  then show ?thesis using split by (simp add: round_units_def dd Let_def)
qed

lemma round_units_mono:
  assumes "n \<le> m"
  shows "round_units t n \<le> round_units t m"
proof (cases "n = 0")
  case True
  then show ?thesis by (simp add: round_units_0)
next
  case False
  then have mpos: "0 < m" using assms by simp
  define dn where "dn = nat (max (int (ndigits n) - int context_prec) t)"
  define dm where "dm = nat (max (int (ndigits m) - int context_prec) t)"
  have dig: "ndigits n \<le> ndigits m" using assms by (rule ndigits_mono)
  then have dle: "dn \<le> dm" by (simp add: dn_def dm_def)
  show ?thesis
  proof (cases "dn = dm")
    case True
    have "round_half_even n dm * 10 ^ dm \<le> round_half_even m dm * 10 ^ dm"
      using rhe_mono [OF assms, of dm] by simp
    then show ?thesis
      by (simp add: round_units_def dn_def [symmetric] dm_def [symmetric] True Let_def)
  next
    case False
    with dle have lt: "dn < dm" by simp
    then have tm: "t \<le> int (ndigits m) - int context_prec"
      by (simp add: dn_def dm_def max_def split: if_splits)
    have "ndigits n \<noteq> ndigits m" using lt by (auto simp: dn_def dm_def)
    with dig have le1: "ndigits n \<le> ndigits m - 1" by simp
    have "round_units t n \<le> 10 ^ ndigits n" by (rule round_units_upper)
    also have "\<dots> \<le> 10 ^ (ndigits m - 1)" using le1 by (simp add: power_increasing)
    also have "\<dots> \<le> round_units t m" using mpos tm by (rule round_units_lower)
    finally show ?thesis .
  qed
qed

lemma round_units_scale: "round_units (t + int k) (n * 10 ^ k) = round_units t n * 10 ^ k"
proof (cases "n = 0")
  case True
  then show ?thesis by (simp add: round_units_0)
next
  case False
  then have dig: "ndigits (n * 10 ^ k) = ndigits n + k" by (simp add: ndigits_mult_pow)
  define s where "s = max (int (ndigits n) - int context_prec) t"
  define d where "d = nat s"
  define d' where "d' = nat (s + int k)"
  have m': "max (int (ndigits (n * 10 ^ k)) - int context_prec) (t + int k) = s + int k"
    by (simp add: dig s_def max_def)
  have lhs: "round_units (t + int k) (n * 10 ^ k) = round_half_even (n * 10 ^ k) d' * 10 ^ d'"
    by (simp add: round_units_def m' d'_def Let_def)
  have rhs: "round_units t n = round_half_even n d * 10 ^ d"
    by (simp add: round_units_def s_def [symmetric] d_def Let_def)
  show ?thesis
  proof (cases "0 \<le> s")
    case True
    then have e: "d' = d + k" by (simp add: d'_def d_def nat_add_distrib)
    show ?thesis unfolding lhs rhs e by (simp only: rhe_scale power_add mult.assoc)
  next
    case False
    then have d0: "d = 0" by (simp add: d_def)
    have "d' \<le> k" using False by (simp add: d'_def)
    then have k: "k = (k - d') + d'" by simp
    have "n * 10 ^ k = (n * 10 ^ (k - d')) * 10 ^ d'"
      by (subst k) (simp add: power_add)
    then have "round_half_even (n * 10 ^ k) d' * 10 ^ d' = n * 10 ^ k"
      by (simp only: rhe_exact)
    then show ?thesis unfolding lhs rhs d0 by (simp add: rhe_none_dropped)
  qed
qed

lemma dval_powi: "dval x = of_int (coeff x) * 10 powi expo x"
  by (simp add: dval_def power_int_def field_simps)

lemma dval_Decimal: "dval (Decimal c e) = of_int c * 10 powi e"
  by (simp add: dval_powi)

lemma powi_split:
  assumes "m \<le> e"
  shows "(10::rat) powi e = 10 ^ nat (e - m) * 10 powi m"
proof -
  have "(10::rat) powi e = 10 powi (int (nat (e - m)) + m)" using assms by simp
  also have "\<dots> = 10 powi int (nat (e - m)) * 10 powi m"
    by (rule power_int_add) simp
  finally show ?thesis by (simp only: power_int_of_nat)
qed

lemma powi_pos: "0 < (10::rat) powi e"
  by (simp add: zero_less_power_int)

lemma powi_not_le: "\<not> (10::rat) powi e \<le> 0"
  using powi_pos [of e] by (simp only: not_le)

lemma powi_mono: "e \<le> e' \<Longrightarrow> (10::rat) powi e \<le> 10 powi e'"
  by (rule power_int_increasing) simp_all

lemma powi_strict_mono: "e < e' \<Longrightarrow> (10::rat) powi e < 10 powi e'"
  by (rule power_int_strict_increasing) simp_all

lemma powi_shift: "of_nat (10 ^ k) * (10::rat) powi e = 10 powi (int k + e)"
proof -
  have "(10::rat) powi (int k + e) = 10 powi int k * 10 powi e"
    by (rule power_int_add) simp
  then show ?thesis by (simp add: power_int_of_nat)
qed

lemma dval_nonneg_iff: "0 \<le> dval x \<longleftrightarrow> 0 \<le> coeff x"
  by (simp add: dval_powi zero_le_mult_iff powi_not_le)

lemma dval_nonpos_iff: "dval x \<le> 0 \<longleftrightarrow> coeff x \<le> 0"
  by (simp add: dval_powi mult_le_0_iff powi_not_le)

lemma dval_zero_iff: "dval x = 0 \<longleftrightarrow> coeff x = 0"
  using powi_pos [of "expo x"] by (simp add: dval_powi)

lemma round_coeff_0: "round_coeff t 0 = 0"
  by (simp add: round_coeff_def)

lemma round_coeff_nonneg: "0 \<le> c \<Longrightarrow> 0 \<le> round_coeff t c"
  by (simp add: round_coeff_def sgn_if)

lemma round_coeff_nonpos: "c \<le> 0 \<Longrightarrow> round_coeff t c \<le> 0"
  by (simp add: round_coeff_def sgn_if)

lemma round_coeff_id:
  "ndigits (nat \<bar>c\<bar>) \<le> context_prec \<Longrightarrow> t \<le> 0 \<Longrightarrow> round_coeff t c = c"
  by (simp add: round_coeff_def round_units_id sgn_if)

lemma round_coeff_mono:
  assumes "c \<le> c'"
  shows "round_coeff t c \<le> round_coeff t c'"
proof (cases "0 \<le> c")
  case True
  then have "nat \<bar>c\<bar> \<le> nat \<bar>c'\<bar>" using assms by simp
  then have "round_units t (nat \<bar>c\<bar>) \<le> round_units t (nat \<bar>c'\<bar>)"
    by (rule round_units_mono)
  moreover have "round_units t (nat \<bar>c\<bar>) = 0" if "c = 0"
    using that by (simp add: round_units_0)
  ultimately show ?thesis using True assms by (auto simp: round_coeff_def sgn_if)
next
  case neg: False
  show ?thesis
  proof (cases "0 \<le> c'")
    case True
    have "round_coeff t c \<le> 0" using neg by (simp add: round_coeff_nonpos)
    also have "0 \<le> round_coeff t c'" using True by (rule round_coeff_nonneg)
    finally show ?thesis .
  next
    case False
    then have "nat \<bar>c'\<bar> \<le> nat \<bar>c\<bar>" using assms by simp
    then have "round_units t (nat \<bar>c'\<bar>) \<le> round_units t (nat \<bar>c\<bar>)"
      by (rule round_units_mono)
    then show ?thesis using neg False by (simp add: round_coeff_def sgn_if)
  qed
qed

lemma round_coeff_scale: "round_coeff (t + int k) (c * 10 ^ k) = round_coeff t c * 10 ^ k"
proof -
  have "nat \<bar>c * 10 ^ k\<bar> = nat \<bar>c\<bar> * 10 ^ k"
    by (simp add: abs_mult nat_mult_distrib nat_power_eq)
  moreover have "sgn (c * 10 ^ k) = sgn c" by (simp add: sgn_mult)
  ultimately show ?thesis by (simp add: round_coeff_def round_units_scale)
qed

lemma rounded_mono:
  assumes "dval a \<le> dval b"
  shows "rounded a \<le> rounded b"
proof -
  define m where "m = min (expo a) (expo b)"
  define ka where "ka = nat (expo a - m)"
  define kb where "kb = nat (expo b - m)"
  have pa: "(10::rat) powi expo a = 10 ^ ka * 10 powi m"
    unfolding ka_def by (rule powi_split) (simp add: m_def)
  have pb: "(10::rat) powi expo b = 10 ^ kb * 10 powi m"
    unfolding kb_def by (rule powi_split) (simp add: m_def)
  have ta: "Etiny - m = (Etiny - expo a) + int ka" by (simp add: ka_def m_def)
  have tb: "Etiny - m = (Etiny - expo b) + int kb" by (simp add: kb_def m_def)
  have "(of_int (coeff a * 10 ^ ka) :: rat) * 10 powi m \<le> of_int (coeff b * 10 ^ kb) * 10 powi m"
    using assms by (simp add: dval_powi pa pb mult.assoc)
  then have "(of_int (coeff a * 10 ^ ka) :: rat) \<le> of_int (coeff b * 10 ^ kb)"
    using powi_pos [of m] by (simp only: mult_le_cancel_right_pos)
  then have "coeff a * 10 ^ ka \<le> coeff b * 10 ^ kb" by (simp only: of_int_le_iff)
  then have "round_coeff (Etiny - m) (coeff a * 10 ^ ka) \<le> round_coeff (Etiny - m) (coeff b * 10 ^ kb)"
    by (rule round_coeff_mono)
  then have "round_coeff (Etiny - expo a) (coeff a) * 10 ^ ka
             \<le> round_coeff (Etiny - expo b) (coeff b) * 10 ^ kb"
    by (subst (asm) (2) tb, subst (asm) ta) (simp only: round_coeff_scale)
  then have "(of_int (round_coeff (Etiny - expo a) (coeff a) * 10 ^ ka) :: rat)
             \<le> of_int (round_coeff (Etiny - expo b) (coeff b) * 10 ^ kb)"
    by (simp only: of_int_le_iff)
  then have "(of_int (round_coeff (Etiny - expo a) (coeff a) * 10 ^ ka) :: rat) * 10 powi m
             \<le> of_int (round_coeff (Etiny - expo b) (coeff b) * 10 ^ kb) * 10 powi m"
    using powi_pos [of m] by (simp only: mult_le_cancel_right_pos)
  then show ?thesis by (simp add: rounded_def pa pb mult.assoc)
qed

lemma rounded_id:
  "ndigits (nat \<bar>coeff x\<bar>) \<le> context_prec \<Longrightarrow> Etiny \<le> expo x \<Longrightarrow> rounded x = dval x"
  by (simp add: rounded_def round_coeff_id dval_powi)

lemma rounded_zero: "coeff x = 0 \<Longrightarrow> rounded x = 0"
  by (simp add: rounded_def round_coeff_0)

lemma rounded_nonneg: "0 \<le> dval x \<Longrightarrow> 0 \<le> rounded x"
  using powi_pos [of "expo x"]
  by (simp add: rounded_def dval_nonneg_iff round_coeff_nonneg)

lemma rounded_nonpos: "dval x \<le> 0 \<Longrightarrow> rounded x \<le> 0"
  using powi_pos [of "expo x"]
  by (simp add: rounded_def dval_nonpos_iff round_coeff_nonpos mult_le_0_iff)

lemma abs_rounded:
  "\<bar>rounded x\<bar> = of_nat (round_units (Etiny - expo x) (nat \<bar>coeff x\<bar>)) * 10 powi expo x"
proof -
  have "\<bar>rounded x\<bar> = \<bar>of_int (round_coeff (Etiny - expo x) (coeff x))\<bar> * 10 powi expo x"
    using powi_pos [of "expo x"] by (simp add: rounded_def abs_mult)
  also have "\<bar>of_int (round_coeff (Etiny - expo x) (coeff x)) :: rat\<bar>
             = of_nat (round_units (Etiny - expo x) (nat \<bar>coeff x\<bar>))"
    by (simp add: round_coeff_def abs_mult sgn_if round_units_0)
  finally show ?thesis .
qed

section \<open>Fitting a value to the context\<close>

lemma Etiny_le_Etop: "Etiny \<le> Etop"
  by (simp add: Etiny_def Etop_def Emin_def Emax_def)

lemma Etop_prec: "Etop + int context_prec = Emax + 1"
  by (simp add: Etop_def)

lemma Etiny_le_0: "Etiny \<le> 0"
  by (simp add: Etiny_def Emin_def context_prec_def)

lemma Etiny_le_Emax: "Etiny \<le> Emax"
  by (simp add: Etiny_def Emin_def Emax_def)

lemma rounded_split:
  "rounded x = of_int (sgn (coeff x))
               * (of_nat (round_units (Etiny - expo x) (nat \<bar>coeff x\<bar>)) * 10 powi expo x)"
  by (simp add: rounded_def round_coeff_def)

lemma dval_split: "dval x = of_int (sgn (coeff x)) * (of_nat (nat \<bar>coeff x\<bar>) * 10 powi expo x)"
proof -
  have "coeff x = sgn (coeff x) * int (nat \<bar>coeff x\<bar>)" by (simp add: sgn_if)
  then have "(of_int (coeff x) :: rat) = of_int (sgn (coeff x)) * of_nat (nat \<bar>coeff x\<bar>)"
    by (metis of_int_mult of_int_of_nat_eq)
  then show ?thesis by (simp add: dval_powi)
qed

text \<open>The three ways \<open>dfix\<close> ends for a non-zero coefficient.\<close>

lemma dfix_overflow_above:
  assumes "coeff x \<noteq> 0"
      and "Etop < int (ndigits (nat \<bar>coeff x\<bar>)) + expo x - int context_prec"
  shows "dfix x = Inl Overflow" and "10 powi (Emax + 1) \<le> \<bar>rounded x\<bar>"
proof -
  define n where "n = nat \<bar>coeff x\<bar>"
  have npos: "0 < n" using assms(1) by (simp add: n_def)
  show "dfix x = Inl Overflow"
    using assms by (simp add: dfix_def Let_def)
  have t: "Etiny - expo x \<le> int (ndigits n) - int context_prec"
    using assms(2) Etiny_le_Etop by (simp add: n_def)
  have low: "10 ^ (ndigits n - 1) \<le> round_units (Etiny - expo x) n"
    using npos t by (rule round_units_lower)
  have "Emax + 1 \<le> int (ndigits n - 1) + expo x"
    using assms(2) Etop_prec ndigits_pos [of n] by (simp add: n_def)
  then have "(10::rat) powi (Emax + 1) \<le> 10 powi (int (ndigits n - 1) + expo x)"
    by (rule powi_mono)
  also have "\<dots> = of_nat (10 ^ (ndigits n - 1)) * 10 powi expo x"
    by (simp only: powi_shift)
  also have "\<dots> \<le> of_nat (round_units (Etiny - expo x) n) * 10 powi expo x"
    using low powi_pos [of "expo x"] by (simp only: mult_le_cancel_right_pos of_nat_le_iff)
  finally show "10 powi (Emax + 1) \<le> \<bar>rounded x\<bar>"
    by (simp only: abs_rounded n_def)
qed

lemma dfix_unchanged:
  assumes "coeff x \<noteq> 0"
      and "int (ndigits (nat \<bar>coeff x\<bar>)) + expo x - int context_prec \<le> Etop"
      and "\<not> expo x < max (int (ndigits (nat \<bar>coeff x\<bar>)) + expo x - int context_prec) Etiny"
  shows "dfix x = Inr x" and "rounded x = dval x" and "\<bar>rounded x\<bar> < 10 powi (Emax + 1)"
proof -
  define n where "n = nat \<bar>coeff x\<bar>"
  show "dfix x = Inr x"
    using assms by (simp add: dfix_def Let_def)
  have "max (int (ndigits n) - int context_prec) (Etiny - expo x) \<le> 0"
    using assms(3) by (simp add: n_def max_def split: if_splits)
  then have ru: "round_units (Etiny - expo x) n = n"
    by (simp add: round_units_def Let_def rhe_none_dropped)
  show eq: "rounded x = dval x"
    by (simp only: rounded_split dval_split n_def [symmetric] ru)
  have "of_nat n * (10::rat) powi expo x < of_nat (10 ^ ndigits n) * 10 powi expo x"
    using ndigits_upper [of n] powi_pos [of "expo x"]
    by (simp only: mult_less_cancel_right_pos of_nat_less_iff)
  also have "\<dots> = 10 powi (int (ndigits n) + expo x)" by (simp only: powi_shift)
  also have "\<dots> \<le> 10 powi (Emax + 1)"
    using assms(2) Etop_prec by (intro powi_mono) (simp add: n_def)
  finally show "\<bar>rounded x\<bar> < 10 powi (Emax + 1)"
    by (simp only: abs_rounded n_def [symmetric] ru)
qed

lemma dfix_rounding:
  assumes nz: "coeff x \<noteq> 0"
      and top: "int (ndigits (nat \<bar>coeff x\<bar>)) + expo x - int context_prec \<le> Etop"
      and low: "expo x < max (int (ndigits (nat \<bar>coeff x\<bar>)) + expo x - int context_prec) Etiny"
  shows "(\<exists>y. dfix x = Inr y \<and> dval y = rounded x \<and> \<bar>rounded x\<bar> < 10 powi (Emax + 1))
       \<or> (dfix x = Inl Overflow \<and> 10 powi (Emax + 1) \<le> \<bar>rounded x\<bar>)"
proof -
  define n where "n = nat \<bar>coeff x\<bar>"
  define em where "em = max (int (ndigits n) + expo x - int context_prec) Etiny"
  define d where "d = nat (em - expo x)"
  define q where "q = round_half_even n d"
  have em_top: "em \<le> Etop" using top Etiny_le_Etop by (simp add: em_def n_def)
  have d_int: "int d = em - expo x" using low by (simp add: d_def em_def n_def)
  have dd: "nat (max (int (ndigits n) - int context_prec) (Etiny - expo x)) = d"
    by (simp add: d_def em_def max_def)
  have ru: "round_units (Etiny - expo x) n = q * 10 ^ d"
    by (simp add: round_units_def Let_def dd q_def)
  have pw: "of_nat (10 ^ d) * (10::rat) powi expo x = 10 powi em"
    by (simp only: powi_shift d_int) simp
  have mag: "of_nat (round_units (Etiny - expo x) n) * (10::rat) powi expo x
             = of_nat q * 10 powi em"
    unfolding ru using pw by (simp add: mult.assoc)
  have rd: "rounded x = of_int (sgn (coeff x)) * (of_nat q * 10 powi em)"
    by (simp only: rounded_split n_def [symmetric] mag)
  have ab: "\<bar>rounded x\<bar> = of_nat q * 10 powi em"
    by (simp only: abs_rounded n_def [symmetric] mag)
  have "int (ndigits n) \<le> int context_prec + int d"
    unfolding d_int by (simp add: em_def)
  then have "ndigits n \<le> context_prec + d" by linarith
  then have "(10::nat) ^ ndigits n \<le> 10 ^ (context_prec + d)"
    by (rule power_increasing) simp
  with ndigits_upper [of n] have "n < 10 ^ (context_prec + d)" by (rule less_le_trans)
  then have q_le: "q \<le> 10 ^ context_prec" unfolding q_def by (rule rhe_le_pow)
  have pp: "of_nat (10 ^ context_prec) * (10::rat) powi em = 10 powi (int context_prec + em)"
    by (simp only: powi_shift)
  show ?thesis
  proof (cases "context_prec < ndigits q")
    case True
    have "\<not> q < 10 ^ context_prec"
      using True ndigits_small [of q context_prec] context_prec_pos by auto
    with q_le have qeq: "q = 10 ^ context_prec" by simp
    have ab': "\<bar>rounded x\<bar> = 10 powi (int context_prec + em)"
      by (simp only: ab qeq pp)
    show ?thesis
    proof (cases "Etop < em + 1")
      case over: True
      have "dfix x = Inl Overflow"
        using nz top low True over
        by (simp add: dfix_def Let_def n_def [symmetric] em_def [symmetric] d_def [symmetric]
            q_def [symmetric])
      moreover have "Emax + 1 \<le> int context_prec + em"
        using over em_top Etop_prec by simp
      then have "(10::rat) powi (Emax + 1) \<le> \<bar>rounded x\<bar>"
        unfolding ab' by (rule powi_mono)
      ultimately show ?thesis by simp
    next
      case fine: False
      define y where "y = Decimal (sgn (coeff x) * int (q div 10)) (em + 1)"
      have fx: "dfix x = Inr y"
        using nz top low True fine
        by (simp add: dfix_def Let_def n_def [symmetric] em_def [symmetric] d_def [symmetric]
            q_def [symmetric] y_def)
      have q10: "q = (q div 10) * 10"
        using qeq context_prec_pos by (cases context_prec) simp_all
      have "dval y = of_int (sgn (coeff x)) * (of_nat (q div 10) * 10 powi (em + 1))"
        by (simp add: y_def dval_Decimal mult.assoc)
      also have "(10::rat) powi (em + 1) = 10 * 10 powi em"
        by (rule power_int_add_1') simp
      also have "of_nat (q div 10) * (10 * (10::rat) powi em) = of_nat ((q div 10) * 10) * 10 powi em"
        by simp
      also have "\<dots> = of_nat q * 10 powi em" using q10 by simp
      finally have dv: "dval y = rounded x" by (simp only: rd)
      have "int context_prec + em < Emax + 1"
        using fine Etop_prec by simp
      then have "\<bar>rounded x\<bar> < 10 powi (Emax + 1)"
        unfolding ab' by (rule powi_strict_mono)
      with fx dv show ?thesis by simp
    qed
  next
    case False
    define y where "y = Decimal (sgn (coeff x) * int q) em"
    have fx: "dfix x = Inr y"
      using nz top low False
      by (simp add: dfix_def Let_def n_def [symmetric] em_def [symmetric] d_def [symmetric]
          q_def [symmetric] y_def)
    have dv: "dval y = rounded x"
      by (simp add: y_def dval_Decimal rd mult.assoc)
    have "q < 10 ^ ndigits q" by (rule ndigits_upper)
    also have "\<dots> \<le> 10 ^ context_prec" using False by (simp add: power_increasing)
    finally have "of_nat q * (10::rat) powi em < of_nat (10 ^ context_prec) * 10 powi em"
      using powi_pos [of em] by (simp only: mult_less_cancel_right_pos of_nat_less_iff)
    also have "\<dots> = 10 powi (int context_prec + em)" by (rule pp)
    also have "\<dots> \<le> 10 powi (Emax + 1)"
      using em_top Etop_prec by (intro powi_mono) simp
    finally have "\<bar>rounded x\<bar> < 10 powi (Emax + 1)" by (simp only: ab)
    with fx dv show ?thesis by simp
  qed
qed

lemma dfix_zero_coeff:
  assumes "coeff x = 0"
  shows "\<exists>y. dfix x = Inr y \<and> dval y = rounded x \<and> \<bar>rounded x\<bar> < 10 powi (Emax + 1)"
  using assms powi_pos [of "Emax + 1"]
  by (simp add: dfix_def rounded_zero dval_Decimal)

lemma dfix_spec:
  "(\<exists>y. dfix x = Inr y \<and> dval y = rounded x \<and> \<bar>rounded x\<bar> < 10 powi (Emax + 1))
   \<or> (dfix x = Inl Overflow \<and> 10 powi (Emax + 1) \<le> \<bar>rounded x\<bar>)"
proof (cases "coeff x = 0")
  case True
  then show ?thesis using dfix_zero_coeff by blast
next
  case nz: False
  show ?thesis
  proof (cases "Etop < int (ndigits (nat \<bar>coeff x\<bar>)) + expo x - int context_prec")
    case True
    with nz show ?thesis using dfix_overflow_above by blast
  next
    case top: False
    show ?thesis
    proof (cases "expo x < max (int (ndigits (nat \<bar>coeff x\<bar>)) + expo x - int context_prec) Etiny")
      case True
      with nz top show ?thesis by (intro dfix_rounding) simp_all
    next
      case False
      with nz top show ?thesis using dfix_unchanged [of x] by simp
    qed
  qed
qed

lemma dfix_returns:
  assumes "dfix x = Inr y"
  shows "dval y = rounded x" and "\<bar>rounded x\<bar> < 10 powi (Emax + 1)"
  using dfix_spec [of x] assms by auto

lemma dfix_raises:
  assumes "dfix x = Inl e"
  shows "e = Overflow" and "10 powi (Emax + 1) \<le> \<bar>rounded x\<bar>"
  using dfix_spec [of x] assms by auto

lemma dfix_below_bound:
  assumes "\<bar>rounded x\<bar> < 10 powi (Emax + 1)"
  obtains y where "dfix x = Inr y" and "dval y = rounded x"
  using dfix_spec [of x] assms by auto

section \<open>The operations on finite decimals\<close>

lemma dval_product: "dval (Decimal (coeff a * coeff b) (expo a + expo b)) = dval a * dval b"
proof -
  have "(10::rat) powi (expo a + expo b) = 10 powi expo a * 10 powi expo b"
    by (rule power_int_add) simp
  then show ?thesis by (simp add: dval_powi)
qed

lemma dval_difference:
  "dval (Decimal (coeff a * 10 ^ nat (expo a - min (expo a) (expo b))
                  - coeff b * 10 ^ nat (expo b - min (expo a) (expo b)))
                 (min (expo a) (expo b))) = dval a - dval b"
proof -
  define m where "m = min (expo a) (expo b)"
  have pa: "(10::rat) powi expo a = 10 ^ nat (expo a - m) * 10 powi m"
    by (rule powi_split) (simp add: m_def)
  have pb: "(10::rat) powi expo b = 10 ^ nat (expo b - m) * 10 powi m"
    by (rule powi_split) (simp add: m_def)
  show ?thesis
    unfolding m_def [symmetric] by (simp add: dval_powi pa pb algebra_simps)
qed

lemma multiple_of_100:
  assumes "(c::int) mod 100 = 0"
  obtains k where "c = 100 * k" and "c div 100 = k"
proof -
  from assms have "100 dvd c" by (simp add: mod_eq_0_iff_dvd)
  then obtain k where "c = 100 * k" by (rule dvdE)
  then show ?thesis using that by simp
qed

lemma multiple_of_10:
  assumes "(c::int) mod 10 = 0"
  obtains k where "c = 10 * k" and "c div 10 = k"
proof -
  from assms have "10 dvd c" by (simp add: mod_eq_0_iff_dvd)
  then obtain k where "c = 10 * k" by (rule dvdE)
  then show ?thesis using that by simp
qed

lemma ddiv100_repr:
  "\<exists>x. ddiv100 (Finite a) = finite_result (dfix x) \<and> dval x = dval a / 100
       \<and> \<bar>coeff x\<bar> \<le> \<bar>coeff a\<bar> \<and> expo a - 2 \<le> expo x \<and> expo x \<le> expo a"
proof -
  define c where "c = coeff a"
  define e where "e = expo a"
  have p1: "(10::rat) powi (e - 1) = 10 powi e / 10"
    using power_int_diff [of "10::rat" e 1] by simp
  have p2: "(10::rat) powi (e - 2) = 10 powi e / 100"
    using power_int_diff [of "10::rat" e 2] by simp
  consider (h) "c mod 100 = 0" | (t) "c mod 100 \<noteq> 0" "c mod 10 = 0"
    | (u) "c mod 100 \<noteq> 0" "c mod 10 \<noteq> 0"
    by blast
  then show ?thesis
  proof cases
    case h
    then obtain k where k: "c = 100 * k" "c div 100 = k" by (rule multiple_of_100)
    have v: "dval (Decimal k e) = dval a / 100"
      by (simp add: dval_powi c_def [symmetric] e_def [symmetric] k(1))
    have "\<bar>k\<bar> \<le> \<bar>c\<bar>" by (simp add: k(1) abs_mult)
    moreover have "ddiv100 (Finite a) = finite_result (dfix (Decimal k e))"
      using h k(2) by (simp add: c_def [symmetric] e_def [symmetric])
    ultimately show ?thesis using v unfolding c_def e_def
      by (intro exI [of _ "Decimal k (expo a)"]) simp
  next
    case t
    from t(2) obtain k where k: "c = 10 * k" "c div 10 = k" by (rule multiple_of_10)
    have v: "dval (Decimal k (e - 1)) = dval a / 100"
      by (simp add: dval_powi c_def [symmetric] e_def [symmetric] k(1) p1)
    have "\<bar>k\<bar> \<le> \<bar>c\<bar>" by (simp add: k(1) abs_mult)
    moreover have "ddiv100 (Finite a) = finite_result (dfix (Decimal k (e - 1)))"
      using t k(2) by (simp add: c_def [symmetric] e_def [symmetric])
    ultimately show ?thesis using v unfolding c_def e_def
      by (intro exI [of _ "Decimal k (expo a - 1)"]) simp
  next
    case u
    have v: "dval (Decimal c (e - 2)) = dval a / 100"
      by (simp add: dval_powi c_def [symmetric] e_def [symmetric] p2)
    moreover have "ddiv100 (Finite a) = finite_result (dfix (Decimal c (e - 2)))"
      using u by (simp add: c_def [symmetric] e_def [symmetric])
    ultimately show ?thesis unfolding c_def e_def
      by (intro exI [of _ "Decimal (coeff a) (expo a - 2)"]) simp
  qed
qed

lemma one_below_bound: "(1::rat) < 10 powi (Emax + 1)"
proof -
  have "(10::rat) powi 0 < 10 powi (Emax + 1)"
    by (rule powi_strict_mono) (simp add: Emax_def)
  then show ?thesis by simp
qed

lemma adjusted_below_bound:
  assumes "adjusted x \<le> Emax"
  shows "\<bar>dval x\<bar> < 10 powi (Emax + 1)"
proof -
  define n where "n = nat \<bar>coeff x\<bar>"
  have "\<bar>dval x\<bar> = of_nat n * 10 powi expo x"
    using powi_pos [of "expo x"] by (simp add: dval_powi abs_mult n_def)
  also have "\<dots> < of_nat (10 ^ ndigits n) * 10 powi expo x"
    using ndigits_upper [of n] powi_pos [of "expo x"]
    by (simp only: mult_less_cancel_right_pos of_nat_less_iff)
  also have "\<dots> = 10 powi (int (ndigits n) + expo x)" by (simp only: powi_shift)
  also have "\<dots> \<le> 10 powi (Emax + 1)"
    using assms by (intro powi_mono) (simp add: adjusted_def n_def)
  finally show ?thesis .
qed

lemma adjusted_mono:
  assumes "\<bar>coeff x\<bar> \<le> \<bar>coeff y\<bar>" and "expo x \<le> expo y"
  shows "adjusted x \<le> adjusted y"
proof -
  have "ndigits (nat \<bar>coeff x\<bar>) \<le> ndigits (nat \<bar>coeff y\<bar>)"
    using assms(1) by (intro ndigits_mono) simp
  with assms(2) show ?thesis by (simp add: adjusted_def)
qed

lemma rounded_one: "rounded (Decimal 1 0) = 1"
proof -
  have "rounded (Decimal 1 0) = dval (Decimal 1 0)"
    using Etiny_le_0 by (intro rounded_id) (simp_all add: ndigits.simps context_prec_def)
  then show ?thesis by (simp add: dval_def)
qed

lemma rounded_zero_value: "rounded (Decimal 0 0) = 0"
  by (simp add: rounded_zero)

text \<open>
  A value between two decimals that \<open>dfix\<close> leaves alone is returned, rounded to a value
  between them.
\<close>

lemma dfix_between:
  assumes "dval l \<le> dval x" and "dval x \<le> dval h"
      and "rounded l = dval l" and "rounded h = dval h"
      and "\<bar>dval l\<bar> < 10 powi (Emax + 1)" and "\<bar>dval h\<bar> < 10 powi (Emax + 1)"
  obtains y where "dfix x = Inr y" and "dval l \<le> dval y" and "dval y \<le> dval h"
proof -
  have lo: "dval l \<le> rounded x" using rounded_mono [OF assms(1)] assms(3) by simp
  have hi: "rounded x \<le> dval h" using rounded_mono [OF assms(2)] assms(4) by simp
  have "\<bar>rounded x\<bar> \<le> max \<bar>dval l\<bar> \<bar>dval h\<bar>" using lo hi by (simp add: abs_le_iff max_def) linarith
  also have "\<dots> < 10 powi (Emax + 1)" using assms(5,6) by simp
  finally obtain y where "dfix x = Inr y" and "dval y = rounded x" by (rule dfix_below_bound)
  with lo hi that show ?thesis by simp
qed

section \<open>The fee on finite decimals\<close>

lemma zero_facts:
  shows "rounded (Decimal 0 0) = dval (Decimal 0 0)"
    and "dval (Decimal 0 0) = 0"
    and "\<bar>dval (Decimal 0 0)\<bar> < 10 powi (Emax + 1)"
  using powi_pos [of "Emax + 1"] by (simp_all add: rounded_zero dval_Decimal)

lemma one_facts:
  shows "rounded (Decimal 1 0) = dval (Decimal 1 0)"
    and "dval (Decimal 1 0) = 1"
    and "\<bar>dval (Decimal 1 0)\<bar> < 10 powi (Emax + 1)"
  using one_below_bound by (simp_all add: rounded_one dval_Decimal)

lemma finite_result_Inr: "finite_result r = Inr d \<longleftrightarrow> (\<exists>y. r = Inr y \<and> d = Finite y)"
  by (cases r) (auto simp: finite_result_def)

lemma finite_result_Inl: "finite_result r = Inl e \<longleftrightarrow> r = Inl e"
  by (cases r) (auto simp: finite_result_def)

lemma dfix_kept:
  assumes "ndigits (nat \<bar>coeff x\<bar>) \<le> context_prec" and "Etiny \<le> expo x"
      and "adjusted x \<le> Emax"
  shows "dfix x = Inr x"
proof (cases "coeff x = 0")
  case True
  have "expo x \<le> Emax"
    using assms(3) ndigits_pos [of "nat \<bar>coeff x\<bar>"] by (simp add: adjusted_def)
  with True assms(2) have "dfix x = Inr (Decimal (coeff x) (expo x))"
    by (simp add: dfix_def min_def max_def)
  then show ?thesis by simp
next
  case False
  have top: "int (ndigits (nat \<bar>coeff x\<bar>)) + expo x - int context_prec \<le> Etop"
    using assms(3) by (simp add: adjusted_def Etop_def)
  have "\<not> expo x < max (int (ndigits (nat \<bar>coeff x\<bar>)) + expo x - int context_prec) Etiny"
    using assms(1,2) by (simp add: max_def)
  with False top show ?thesis by (rule dfix_unchanged(1))
qed

lemma quotient_in_range:
  assumes "0 \<le> dval r" and "dval r \<le> 100"
  obtains x q where "dval x = dval r / 100" and "ddiv100 (Finite r) = Inr (Finite q)"
    and "dval q = rounded x" and "0 \<le> dval q" and "dval q \<le> 1"
proof -
  obtain x where x: "ddiv100 (Finite r) = finite_result (dfix x)" "dval x = dval r / 100"
    using ddiv100_repr [of r] by blast
  have lo: "dval (Decimal 0 0) \<le> dval x" using assms(1) x(2) by (simp add: zero_facts)
  have hi: "dval x \<le> dval (Decimal 1 0)" using assms(2) x(2) by (simp add: one_facts)
  have "\<bar>rounded x\<bar> < 10 powi (Emax + 1)"
  proof -
    have "0 \<le> rounded x" using rounded_mono [OF lo] by (simp add: zero_facts)
    moreover have "rounded x \<le> 1" using rounded_mono [OF hi] by (simp add: one_facts)
    ultimately show ?thesis using one_below_bound by simp
  qed
  then obtain q where q: "dfix x = Inr q" "dval q = rounded x" by (rule dfix_below_bound)
  have "0 \<le> dval q" using rounded_mono [OF lo] q(2) by (simp add: zero_facts)
  moreover have "dval q \<le> 1" using rounded_mono [OF hi] q(2) by (simp add: one_facts)
  moreover have "ddiv100 (Finite r) = Inr (Finite q)"
    unfolding x(1) q(1) by (simp add: finite_result_def)
  ultimately show ?thesis using that x(2) q(2) by blast
qed

lemma fee_by_quotient:
  assumes "ddiv100 (Finite r) = Inr (Finite q)"
  shows "get_price_fee (Finite a) (Finite r)
         = finite_result (dfix (Decimal (coeff a * coeff q) (expo a + expo q)))"
  unfolding get_price_fee_def assms by simp

lemma fee_only_overflow:
  assumes "get_price_fee (Finite a) (Finite r) = Inl e"
  shows "e = Overflow"
proof -
  obtain x where x: "ddiv100 (Finite r) = finite_result (dfix x)"
    using ddiv100_repr [of r] by blast
  show ?thesis
  proof (cases "dfix x")
    case (Inl e')
    then have "e' = Overflow" by (rule dfix_raises(1))
    have "ddiv100 (Finite r) = Inl e'" unfolding x Inl by (simp add: finite_result_def)
    with assms have "e = e'" by (simp only: get_price_fee_def sum.case) simp
    with \<open>e' = Overflow\<close> show ?thesis by simp
  next
    case (Inr q)
    then have "ddiv100 (Finite r) = Inr (Finite q)" unfolding x by (simp add: finite_result_def)
    then have "finite_result (dfix (Decimal (coeff a * coeff q) (expo a + expo q))) = Inl e"
      using assms by (simp add: fee_by_quotient)
    then have "dfix (Decimal (coeff a * coeff q) (expo a + expo q)) = Inl e"
      by (simp only: finite_result_Inl)
    then show ?thesis by (rule dfix_raises(1))
  qed
qed

lemma fee_zero_rate:
  assumes "dval z = 0"
  shows "\<exists>f. get_price_fee (Finite a) (Finite z) = Inr (Finite f) \<and> dval f = 0"
proof -
  obtain x where x: "ddiv100 (Finite z) = finite_result (dfix x)" "\<bar>coeff x\<bar> \<le> \<bar>coeff z\<bar>"
    using ddiv100_repr [of z] by blast
  have "coeff z = 0" using assms by (simp only: dval_zero_iff)
  with x(2) have cx: "coeff x = 0" by simp
  then obtain q where q: "dfix x = Inr q" "dval q = rounded x"
    using dfix_zero_coeff [of x] by blast
  have "dval q = 0" using q(2) cx by (simp add: rounded_zero)
  then have cq: "coeff q = 0" by (simp only: dval_zero_iff)
  have dq: "ddiv100 (Finite z) = Inr (Finite q)"
    unfolding x(1) q(1) by (simp add: finite_result_def)
  define p where "p = Decimal (coeff a * coeff q) (expo a + expo q)"
  have cp: "coeff p = 0" by (simp add: p_def cq)
  then obtain f where f: "dfix p = Inr f" "dval f = rounded p"
    using dfix_zero_coeff [of p] by blast
  have "dval f = 0" using f(2) cp by (simp add: rounded_zero)
  moreover have "get_price_fee (Finite a) (Finite z) = Inr (Finite f)"
    by (simp add: fee_by_quotient [OF dq] p_def [symmetric] f(1) finite_result_def)
  ultimately show ?thesis by blast
qed

lemma fee_monotone:
  assumes a: "0 \<le> dval a"
      and r: "0 \<le> dval r1" "dval r1 \<le> dval r2" "dval r2 \<le> 100"
      and f2: "get_price_fee (Finite a) (Finite r2) = Inr (Finite f2)"
  shows "\<exists>f1. get_price_fee (Finite a) (Finite r1) = Inr (Finite f1) \<and> dval f1 \<le> dval f2"
proof -
  have r1': "dval r1 \<le> 100" and r2': "0 \<le> dval r2" using r by simp_all
  obtain x1 q1 where q1: "dval x1 = dval r1 / 100" "ddiv100 (Finite r1) = Inr (Finite q1)"
      "dval q1 = rounded x1" "0 \<le> dval q1"
    using quotient_in_range [OF r(1) r1'] by metis
  obtain x2 q2 where q2: "dval x2 = dval r2 / 100" "ddiv100 (Finite r2) = Inr (Finite q2)"
      "dval q2 = rounded x2"
    using quotient_in_range [OF r2' r(3)] by metis
  have "dval x1 \<le> dval x2" using r(2) q1(1) q2(1) by simp
  then have qq: "dval q1 \<le> dval q2" using rounded_mono q1(3) q2(3) by simp
  define p1 where "p1 = Decimal (coeff a * coeff q1) (expo a + expo q1)"
  define p2 where "p2 = Decimal (coeff a * coeff q2) (expo a + expo q2)"
  have v1: "dval p1 = dval a * dval q1" and v2: "dval p2 = dval a * dval q2"
    by (simp_all add: p1_def p2_def dval_product)
  have le: "dval p1 \<le> dval p2" unfolding v1 v2 using qq a by (rule mult_left_mono)
  have nonneg: "0 \<le> dval p1" unfolding v1 using a q1(4) by (rule mult_nonneg_nonneg)
  have "finite_result (dfix p2) = Inr (Finite f2)"
    using f2 by (simp add: fee_by_quotient [OF q2(2)] p2_def)
  then have d2: "dfix p2 = Inr f2" by (simp add: finite_result_Inr)
  have b2: "\<bar>rounded p2\<bar> < 10 powi (Emax + 1)" and e2: "dval f2 = rounded p2"
    using dfix_returns [OF d2] by simp_all
  have "0 \<le> rounded p1" using nonneg by (rule rounded_nonneg)
  moreover have le': "rounded p1 \<le> rounded p2" using le by (rule rounded_mono)
  ultimately have "\<bar>rounded p1\<bar> < 10 powi (Emax + 1)" using b2 by simp
  then obtain f1 where f1: "dfix p1 = Inr f1" "dval f1 = rounded p1"
    by (rule dfix_below_bound)
  have "get_price_fee (Finite a) (Finite r1) = Inr (Finite f1)"
    by (simp add: fee_by_quotient [OF q1(2)] p1_def [symmetric] f1(1) finite_result_def)
  moreover have "dval f1 \<le> dval f2" using le' f1(2) e2 by simp
  ultimately show ?thesis by blast
qed

lemma fee_exact:
  assumes "fits r" and "fits (Decimal (coeff a * coeff r) (expo a + expo r))"
  shows "\<exists>f. get_price_fee (Finite a) (Finite r) = Inr (Finite f)
             \<and> dval f = dval a * (dval r / 100)"
proof -
  obtain x where x: "ddiv100 (Finite r) = finite_result (dfix x)" "dval x = dval r / 100"
      "\<bar>coeff x\<bar> \<le> \<bar>coeff r\<bar>" "expo r - 2 \<le> expo x" "expo x \<le> expo r"
    using ddiv100_repr [of r] by blast
  have "ndigits (nat \<bar>coeff x\<bar>) \<le> ndigits (nat \<bar>coeff r\<bar>)"
    using x(3) by (intro ndigits_mono) simp
  moreover have "adjusted x \<le> adjusted r" using x(3,5) by (rule adjusted_mono)
  ultimately have "dfix x = Inr x"
    using assms(1) x(4) by (intro dfix_kept) (simp_all add: fits_def)
  then have q: "ddiv100 (Finite r) = Inr (Finite x)"
    unfolding x(1) by (simp add: finite_result_def)
  define p where "p = Decimal (coeff a * coeff x) (expo a + expo x)"
  define p0 where "p0 = Decimal (coeff a * coeff r) (expo a + expo r)"
  have c: "\<bar>coeff p\<bar> \<le> \<bar>coeff p0\<bar>"
    using x(3) by (simp add: p_def p0_def abs_mult mult_left_mono)
  have e: "expo p \<le> expo p0" using x(5) by (simp add: p_def p0_def)
  have "ndigits (nat \<bar>coeff p\<bar>) \<le> ndigits (nat \<bar>coeff p0\<bar>)"
    using c by (intro ndigits_mono) simp
  moreover have "adjusted p \<le> adjusted p0" using c e by (rule adjusted_mono)
  moreover have "expo p0 - 2 \<le> expo p" using x(4) by (simp add: p_def p0_def)
  ultimately have "dfix p = Inr p"
    using assms(2) by (intro dfix_kept) (simp_all add: fits_def p0_def [symmetric])
  then have "get_price_fee (Finite a) (Finite r) = Inr (Finite p)"
    by (simp add: fee_by_quotient [OF q] p_def [symmetric] finite_result_def)
  moreover have "dval p = dval a * (dval r / 100)"
    by (simp add: p_def dval_product x(2))
  ultimately show ?thesis by blast
qed

lemma dsub_finite:
  "dsub (Finite a) (Finite b)
   = finite_result
       (dfix (Decimal (coeff a * 10 ^ nat (expo a - min (expo a) (expo b))
                       - coeff b * 10 ^ nat (expo b - min (expo a) (expo b)))
                      (min (expo a) (expo b))))"
  by (simp add: Let_def)

lemma fee_and_net:
  assumes a: "0 \<le> dval a" "ndigits (nat \<bar>coeff a\<bar>) \<le> context_prec" "Etiny \<le> expo a"
             "adjusted a \<le> Emax"
      and r: "0 \<le> dval r" "dval r \<le> 100"
  shows "\<exists>f n. get_price_fee (Finite a) (Finite r) = Inr (Finite f)
               \<and> dsub (Finite a) (Finite f) = Inr (Finite n)
               \<and> 0 \<le> dval f \<and> dval f \<le> dval a \<and> 0 \<le> dval n \<and> dval n \<le> dval a"
proof -
  have ra: "rounded a = dval a" using a(2,3) by (rule rounded_id)
  have ba: "\<bar>dval a\<bar> < 10 powi (Emax + 1)" using a(4) by (rule adjusted_below_bound)
  obtain x q where q: "ddiv100 (Finite r) = Inr (Finite q)" "0 \<le> dval q" "dval q \<le> 1"
    using quotient_in_range [OF r] by metis
  define p where "p = Decimal (coeff a * coeff q) (expo a + expo q)"
  have vp: "dval p = dval a * dval q" by (simp add: p_def dval_product)
  have "0 \<le> dval p" unfolding vp using a(1) q(2) by (rule mult_nonneg_nonneg)
  then have lo: "dval (Decimal 0 0) \<le> dval p" by (simp add: zero_facts)
  have "dval a * dval q \<le> dval a * 1" using q(3) a(1) by (rule mult_left_mono)
  then have hi: "dval p \<le> dval a" by (simp add: vp)
  obtain f where f: "dfix p = Inr f" "dval (Decimal 0 0) \<le> dval f" "dval f \<le> dval a"
    using lo hi zero_facts(1) ra zero_facts(3) ba by (rule dfix_between)
  have fee: "get_price_fee (Finite a) (Finite r) = Inr (Finite f)"
    by (simp add: fee_by_quotient [OF q(1)] p_def [symmetric] f(1) finite_result_def)
  define d where "d = Decimal (coeff a * 10 ^ nat (expo a - min (expo a) (expo f))
                       - coeff f * 10 ^ nat (expo f - min (expo a) (expo f)))
                      (min (expo a) (expo f))"
  have vd: "dval d = dval a - dval f" unfolding d_def by (rule dval_difference)
  have f0: "0 \<le> dval f" using f(2) by (simp add: zero_facts)
  have lo': "dval (Decimal 0 0) \<le> dval d" using f(3) by (simp add: vd zero_facts)
  have hi': "dval d \<le> dval a" using f0 by (simp add: vd)
  obtain n where n: "dfix d = Inr n" "dval (Decimal 0 0) \<le> dval n" "dval n \<le> dval a"
    using lo' hi' zero_facts(1) ra zero_facts(3) ba by (rule dfix_between)
  have "dsub (Finite a) (Finite f) = Inr (Finite n)"
    by (simp only: dsub_finite d_def [symmetric] n(1)) (simp add: finite_result_def)
  with fee f0 f(3) n(2,3) show ?thesis by (auto simp: zero_facts)
qed

subsection \<open>Concrete computations\<close>

lemma ndigits_is:
  assumes "10 ^ (k - 1) \<le> n" and "n < 10 ^ k" and "0 < k"
  shows "ndigits n = k"
  using ndigits_eqI [of "k - 1" n] assms by simp

lemma dfix_plain:
  assumes "\<bar>c\<bar> < 10 ^ context_prec" and "Etiny \<le> e" and "e + int context_prec \<le> Emax + 1"
  shows "dfix (Decimal c e) = Inr (Decimal c e)"
proof -
  have "nat \<bar>c\<bar> < 10 ^ context_prec" using assms(1) by (simp add: nat_less_iff)
  then have d: "ndigits (nat \<bar>c\<bar>) \<le> context_prec"
    using context_prec_pos by (rule ndigits_small)
  then have "adjusted (Decimal c e) \<le> Emax" using assms(3) by (simp add: adjusted_def)
  with d assms(2) show ?thesis by (intro dfix_kept) simp_all
qed

lemmas context_consts = context_prec_def Etiny_def Emin_def Emax_def Etop_def

lemma fee_of_1_at_2:
  "get_price_fee (Finite (Decimal 10 (-1))) (Finite (Decimal 2 0)) = Inr (Finite (Decimal 20 (-3)))"
  by (simp add: get_price_fee_def dfix_plain finite_result_def context_consts)

lemma net_of_1_at_2:
  "dsub (Finite (Decimal 10 (-1))) (Finite (Decimal 20 (-3))) = Inr (Finite (Decimal 980 (-3)))"
  by (simp add: dfix_plain finite_result_def context_consts)

lemma fee_of_1_at_150:
  "get_price_fee (Finite (Decimal 1 0)) (Finite (Decimal 150 0)) = Inr (Finite (Decimal 15 (-1)))"
  by (simp add: get_price_fee_def dfix_plain finite_result_def context_consts)


lemma fee_of_1_at_minus_50:
  "get_price_fee (Finite (Decimal 1 0)) (Finite (Decimal (-50) 0))
   = Inr (Finite (Decimal (-5) (-1)))"
  by (simp add: get_price_fee_def dfix_plain finite_result_def context_consts)

lemma fee_15_digits:
  "get_price_fee (Finite (Decimal 100000000000001 (-14))) (Finite (Decimal 100000000000001 (-14)))
   = Inr (Finite (Decimal 1000000000000020000000000000 (-29)))"
proof -
  have n: "ndigits 10000000000000200000000000001 = 29"
    by (rule ndigits_is) simp_all
  have r: "round_half_even 10000000000000200000000000001 (Suc 0) = 1000000000000020000000000000"
    by (simp add: round_half_even_def Let_def)
  have n': "ndigits 1000000000000020000000000000 = 28"
    by (rule ndigits_is) simp_all
  have q: "ddiv100 (Finite (Decimal 100000000000001 (-14)))
           = Inr (Finite (Decimal 100000000000001 (-16)))"
    by (simp add: dfix_plain finite_result_def context_consts)
  have "dfix (Decimal 10000000000000200000000000001 (-30))
        = Inr (Decimal 1000000000000020000000000000 (-29))"
    by (simp add: dfix_def Let_def n n' r context_consts)
  then show ?thesis
    unfolding get_price_fee_def q by (simp add: finite_result_def)
qed

lemma fee_29_digits:
  "get_price_fee (Finite (Decimal 10000000000000000000000000008 0))
                 (Finite (Decimal 9999999999999999999999999999 (-26)))
   = Inr (Finite (Decimal 1000000000000000000000000001 1))"
proof -
  have n: "ndigits 100000000000000000000000000069999999999999999999999999992 = 57"
    by (rule ndigits_is) simp_all
  have r: "round_half_even 100000000000000000000000000069999999999999999999999999992 29
           = 1000000000000000000000000001"
    by (simp add: round_half_even_def Let_def)
  have n': "ndigits 1000000000000000000000000001 = 28"
    by (rule ndigits_is) simp_all
  have q: "ddiv100 (Finite (Decimal 9999999999999999999999999999 (-26)))
           = Inr (Finite (Decimal 9999999999999999999999999999 (-28)))"
    by (simp add: dfix_plain finite_result_def context_consts)
  have "dfix (Decimal 100000000000000000000000000069999999999999999999999999992 (-28))
        = Inr (Decimal 1000000000000000000000000001 1)"
    by (simp add: dfix_def Let_def n n' r context_consts)
  then show ?thesis
    unfolding get_price_fee_def q by (simp add: finite_result_def)
qed

lemma net_29_digits:
  "dsub (Finite (Decimal 10000000000000000000000000008 0))
        (Finite (Decimal 1000000000000000000000000001 1))
   = Inr (Finite (Decimal (-2) 0))"
  by (simp add: dfix_plain finite_result_def context_consts)

lemma fee_at_the_largest_exponent:
  "get_price_fee (Finite (Decimal 1 1000001)) (Finite (Decimal 1 0))
   = Inr (Finite (Decimal 1 999999))"
proof -
  have q: "ddiv100 (Finite (Decimal 1 0)) = Inr (Finite (Decimal 1 (-2)))"
    by (simp add: dfix_plain finite_result_def context_consts)
  have "dfix (Decimal 1 999999) = Inr (Decimal 1 999999)"
    by (simp add: dfix_def Let_def ndigits.simps context_consts)
  then show ?thesis
    unfolding get_price_fee_def q by (simp add: finite_result_def)
qed

lemma fee_beyond_the_largest_exponent:
  "get_price_fee (Finite (Decimal 1 1000001)) (Finite (Decimal 50 0)) = Inl Overflow"
proof -
  have q: "ddiv100 (Finite (Decimal 50 0)) = Inr (Finite (Decimal 5 (-1)))"
    by (simp add: dfix_plain finite_result_def context_consts)
  have "dfix (Decimal 5 1000000) = Inl Overflow"
    by (simp add: dfix_def Let_def ndigits.simps context_consts)
  then show ?thesis
    unfolding get_price_fee_def q by (simp add: finite_result_def)
qed

lemma fee_below_the_smallest_exponent:
  "get_price_fee (Finite (Decimal 1 (-1000026))) (Finite (Decimal 1 0))
   = Inr (Finite (Decimal 0 (-1000026)))"
proof -
  have q: "ddiv100 (Finite (Decimal 1 0)) = Inr (Finite (Decimal 1 (-2)))"
    by (simp add: dfix_plain finite_result_def context_consts)
  have "dfix (Decimal 1 (-1000028)) = Inr (Decimal 0 (-1000026))"
    by (simp add: dfix_def Let_def ndigits.simps round_half_even_def context_consts)
  then show ?thesis
    unfolding get_price_fee_def q by (simp add: finite_result_def)
qed

lemma fee_of_infinity_at_0:
  "get_price_fee (Infinity False) (Finite (Decimal 0 0)) = Inl InvalidOperation"
  by (simp add: get_price_fee_def dfix_def finite_result_def context_consts)

section \<open>Invoice lookup\<close>

lemma get_object_or_none_no_match:
  assumes "\<not> (\<exists>i \<in> set objects. inv_uuid i = uid \<and> inv_user i = usr)"
  shows "get_object_or_none objects usr uid = Inr None"
proof -
  from assms have "filter (\<lambda>i. inv_user i = usr \<and> inv_uuid i = uid) objects = []"
    by (auto simp: filter_empty_conv)
  then show ?thesis by (simp add: get_object_or_none_def)
qed

lemma get_object_or_none_invoice1:
  "get_object_or_none [invoice1] ''alice'' ''0a1b'' = Inr (Some invoice1)"
  by (simp add: get_object_or_none_def invoice1_def)

text \<open>
  C10. When no invoice of the table matches both the id and the owner, \<open>delete_invoice\<close>
  and \<open>invoice_details\<close> answer with the error response (status 400, "UUID does not
  belong to any of the invoices.") and the table is unchanged.
\<close>

theorem missing_invoice_not_found:
  assumes "\<not> (\<exists>i \<in> set objects. inv_uuid i = uid \<and> inv_user i = usr)"
  shows "delete_invoice objects usr uid =
           (Inr (Response (ErrorMsg ''UUID does not belong to any of the invoices.'') 400),
            objects)
       \<and> invoice_details objects usr uid =
           (Inr (Response (ErrorMsg ''UUID does not belong to any of the invoices.'') 400),
            objects)"
  using get_object_or_none_no_match [OF assms]
  by (simp add: delete_invoice_def invoice_details_def not_found_def)

theorem missing_invoice_not_found_witness:
  "\<not> (\<exists>i \<in> set [invoice1]. inv_uuid i = ''0a1b'' \<and> inv_user i = ''bob'')
   \<and> delete_invoice [invoice1] ''bob'' ''0a1b'' =
           (Inr (Response (ErrorMsg ''UUID does not belong to any of the invoices.'') 400),
            [invoice1])
   \<and> invoice_details [invoice1] ''bob'' ''0a1b'' =
           (Inr (Response (ErrorMsg ''UUID does not belong to any of the invoices.'') 400),
            [invoice1])"
proof -
  have h: "\<not> (\<exists>i \<in> set [invoice1]. inv_uuid i = ''0a1b'' \<and> inv_user i = ''bob'')"
    by (simp add: invoice1_def)
  show ?thesis using h missing_invoice_not_found [OF h] by simp
qed

section \<open>Settlement check\<close>

text \<open>
  C9. For an invoice that is found and whose fetched snapshot of unspent outputs is empty,
  \<open>check_invoice\<close> answers with the error "Amount is not payed" (status 400).
\<close>

theorem empty_snapshot_unpaid:
  assumes "get_object_or_none objects usr uid = Inr (Some invoice)"
      and "get_unspents (TEST st) (inv_key invoice) = []"
  shows "check_invoice st get_unspents c2s objects usr uid =
           Inr (Response (ErrorMsg ''Amount is not payed'') 400)"
  using assms by (simp add: check_invoice_def)

theorem empty_snapshot_unpaid_witness:
  "get_object_or_none [invoice1] ''alice'' ''0a1b'' = Inr (Some invoice1)
   \<and> (\<lambda>_ _. []) (TEST settings3) (inv_key invoice1) = ([] :: unspent list)
   \<and> check_invoice settings3 (\<lambda>_ _. []) (\<lambda>_. 1000000) [invoice1] ''alice'' ''0a1b'' =
           Inr (Response (ErrorMsg ''Amount is not payed'') 400)"
  using get_object_or_none_invoice1
    empty_snapshot_unpaid [OF get_object_or_none_invoice1, of "\<lambda>_ _. []" settings3 "\<lambda>_. 1000000"]
  by simp

text \<open>
  C4. Two non-empty snapshots whose last outputs have the same amount and the same
  confirmation count give the same outcome of \<open>check_invoice\<close> for the same invoice and
  threshold: nothing but the last output of the snapshot is read.
\<close>

theorem same_last_output_same_outcome:
  assumes "xs \<noteq> []" and "ys \<noteq> []"
      and "amount (last xs) = amount (last ys)"
      and "confirmations (last xs) = confirmations (last ys)"
  shows "check_invoice st (\<lambda>_ _. xs) c2s objects usr uid =
         check_invoice st (\<lambda>_ _. ys) c2s objects usr uid"
  using assms by (simp add: check_invoice_def Let_def split: sum.splits option.splits)

theorem same_last_output_same_outcome_witness:
  "[\<lparr>amount = 400000, confirmations = 9\<rparr>, \<lparr>amount = 1000000, confirmations = 2\<rparr>] \<noteq> []
   \<and> [\<lparr>amount = 1000000, confirmations = 2\<rparr>] \<noteq> []
   \<and> check_invoice settings3
        (\<lambda>_ _. [\<lparr>amount = 400000, confirmations = 9\<rparr>, \<lparr>amount = 1000000, confirmations = 2\<rparr>])
        (\<lambda>_. 1000000) [invoice1] ''alice'' ''0a1b''
     = check_invoice settings3 (\<lambda>_ _. [\<lparr>amount = 1000000, confirmations = 2\<rparr>])
        (\<lambda>_. 1000000) [invoice1] ''alice'' ''0a1b''
   \<and> check_invoice settings3 (\<lambda>_ _. [\<lparr>amount = 1000000, confirmations = 2\<rparr>])
        (\<lambda>_. 1000000) [invoice1] ''alice'' ''0a1b''
     = Inr (Response (PaymentNotConfirmed 2 3) 400)"
  using same_last_output_same_outcome
          [of "[\<lparr>amount = 400000, confirmations = 9\<rparr>, \<lparr>amount = 1000000, confirmations = 2\<rparr>]"
              "[\<lparr>amount = 1000000, confirmations = 2\<rparr>]"
              settings3 "\<lambda>_. 1000000" "[invoice1]" "''alice''" "''0a1b''"]
  by (simp add: check_invoice_def get_object_or_none_invoice1 settings3_def)

text \<open>
  C1, as the code has it. The check decides on the last output of the snapshot alone: its
  outcome for a non-empty snapshot is its outcome for the one-element snapshot that holds
  the last output. For an invoice that is found, the answer is "Payed amount is less" when
  the last output's amount is below the amount owed, "Payment is not confirmed yet" when
  that amount suffices and the last output's confirmations are below the threshold, and the
  empty success response otherwise; the other outputs are neither summed nor consulted for
  their confirmations.
\<close>

theorem check_decides_on_last_output:
  assumes "xs \<noteq> []"
  shows "check_invoice st (\<lambda>_ _. xs) c2s objects usr uid =
         check_invoice st (\<lambda>_ _. [last xs]) c2s objects usr uid
       \<and> (get_object_or_none objects usr uid = Inr (Some invoice) \<longrightarrow>
            check_invoice st (\<lambda>_ _. xs) c2s objects usr uid =
              (if amount (last xs) < c2s (inv_amount invoice)
               then Inr (Response (PayedAmountIsLess (amount (last xs)) (c2s (inv_amount invoice))) 400)
               else if confirmations (last xs) < BTC_CONFIRMATIONS st
               then Inr (Response (PaymentNotConfirmed (confirmations (last xs))
                                     (BTC_CONFIRMATIONS st)) 400)
               else Inr (Response NoData 200)))"
  using assms by (simp add: check_invoice_def Let_def split: sum.splits option.splits)

theorem check_decides_on_last_output_witness:
  "[\<lparr>amount = 500000, confirmations = 6\<rparr>, \<lparr>amount = 1200000, confirmations = 4\<rparr>] \<noteq> []
   \<and> get_object_or_none [invoice1] ''alice'' ''0a1b'' = Inr (Some invoice1)
   \<and> check_invoice settings3
        (\<lambda>_ _. [\<lparr>amount = 500000, confirmations = 6\<rparr>, \<lparr>amount = 1200000, confirmations = 4\<rparr>])
        (\<lambda>_. 1000000) [invoice1] ''alice'' ''0a1b''
     = check_invoice settings3 (\<lambda>_ _. [\<lparr>amount = 1200000, confirmations = 4\<rparr>])
        (\<lambda>_. 1000000) [invoice1] ''alice'' ''0a1b''
   \<and> check_invoice settings3
        (\<lambda>_ _. [\<lparr>amount = 500000, confirmations = 6\<rparr>, \<lparr>amount = 1200000, confirmations = 4\<rparr>])
        (\<lambda>_. 1000000) [invoice1] ''alice'' ''0a1b''
     = Inr (Response NoData 200)"
  using check_decides_on_last_output
          [of "[\<lparr>amount = 500000, confirmations = 6\<rparr>, \<lparr>amount = 1200000, confirmations = 4\<rparr>]"
              settings3 "\<lambda>_. 1000000" "[invoice1]" "''alice''" "''0a1b''" invoice1]
        get_object_or_none_invoice1
  by (auto simp: settings3_def)

text \<open>
  The claim C1 as stated fails: two outputs of 500000 satoshis with 6 confirmations each
  add up to the 1000000 satoshis owed (0.01 BTC), and each has more confirmations than the
  threshold 3, yet the check answers "Payed amount is less (500000 < 1000000)".
\<close>

theorem check_does_not_sum_outputs:
  "sum_list (map amount [\<lparr>amount = 500000, confirmations = 6\<rparr>, \<lparr>amount = 500000, confirmations = 6\<rparr>])
     = 1000000
   \<and> BTC_CONFIRMATIONS settings3 \<le> 6
   \<and> check_invoice settings3
        (\<lambda>_ _. [\<lparr>amount = 500000, confirmations = 6\<rparr>, \<lparr>amount = 500000, confirmations = 6\<rparr>])
        (\<lambda>_. 1000000) [invoice1] ''alice'' ''0a1b''
     = Inr (Response (PayedAmountIsLess 500000 1000000) 400)"
  by (simp add: check_invoice_def get_object_or_none_invoice1 settings3_def)

section \<open>Fee calculator\<close>

text \<open>
  C7, as the code has it. For a finite non-negative amount the fee at a finite rate of
  value 0 is returned and is 0. For finite rates \<open>r1 \<le> r2\<close> in \<open>[0, 100)\<close>: whenever the
  fee at \<open>r2\<close> is returned, the fee at \<open>r1\<close> is returned too and is at most the fee at
  \<open>r2\<close>.
\<close>

theorem fee_zero_and_monotone_where_returned:
  assumes "0 \<le> dval a"
  shows "(dval z = 0 \<longrightarrow>
            (\<exists>f. get_price_fee (Finite a) (Finite z) = Inr (Finite f) \<and> dval f = 0))
       \<and> (0 \<le> dval r1 \<and> dval r1 \<le> dval r2 \<and> dval r2 < 100
            \<and> get_price_fee (Finite a) (Finite r2) = Inr (Finite f2) \<longrightarrow>
            (\<exists>f1. get_price_fee (Finite a) (Finite r1) = Inr (Finite f1) \<and> dval f1 \<le> dval f2))"
proof (intro conjI impI)
  assume "dval z = 0"
  then show "\<exists>f. get_price_fee (Finite a) (Finite z) = Inr (Finite f) \<and> dval f = 0"
    by (rule fee_zero_rate)
next
  assume h: "0 \<le> dval r1 \<and> dval r1 \<le> dval r2 \<and> dval r2 < 100
             \<and> get_price_fee (Finite a) (Finite r2) = Inr (Finite f2)"
  then have "dval r2 \<le> 100" by simp
  with h show "\<exists>f1. get_price_fee (Finite a) (Finite r1) = Inr (Finite f1) \<and> dval f1 \<le> dval f2"
    using fee_monotone [OF assms, of r1 r2 f2] by simp
qed

lemma fee_of_250_at_35:
  "get_price_fee (Finite (Decimal 250 (-2))) (Finite (Decimal 35 (-1)))
   = Inr (Finite (Decimal 8750 (-5)))"
  by (simp add: get_price_fee_def dfix_plain finite_result_def context_consts)

theorem fee_zero_and_monotone_where_returned_witness:
  "(\<exists>f. get_price_fee (Finite (Decimal 250 (-2))) (Finite (Decimal 0 0)) = Inr (Finite f)
        \<and> dval f = 0)
   \<and> get_price_fee (Finite (Decimal 250 (-2))) (Finite (Decimal 35 (-1)))
       = Inr (Finite (Decimal 8750 (-5)))
   \<and> (\<exists>f1. get_price_fee (Finite (Decimal 250 (-2))) (Finite (Decimal 2 0)) = Inr (Finite f1)
         \<and> dval f1 \<le> dval (Decimal 8750 (-5)))"
proof -
  have a: "0 \<le> dval (Decimal 250 (-2))" by (simp add: dval_def)
  have z: "dval (Decimal 0 0) = 0" by (simp add: dval_def)
  have r: "0 \<le> dval (Decimal 2 0) \<and> dval (Decimal 2 0) \<le> dval (Decimal 35 (-1))
           \<and> dval (Decimal 35 (-1)) < 100"
    by (simp add: dval_def)
  show ?thesis
    using fee_zero_and_monotone_where_returned
            [OF a, of "Decimal 0 0" "Decimal 2 0" "Decimal 35 (-1)" "Decimal 8750 (-5)"]
          z r fee_of_250_at_35
    by simp
qed

text \<open>
  The claim C7 as stated fails. The amount \<open>1E+1000001\<close> is finite and non-negative and
  the rates 1 and 50 are in \<open>[0, 100)\<close>: the fee at rate 1 is \<open>1E+999999\<close>, the fee at rate
  50 is not computed, \<open>Overflow\<close> is raised. For the amount \<open>Infinity\<close> the fee at rate 0
  is not 0: \<open>InvalidOperation\<close> is raised.
\<close>

theorem fee_raises_for_large_amounts:
  "0 \<le> dval (Decimal 1 1000001)
   \<and> 0 \<le> dval (Decimal 1 0) \<and> dval (Decimal 1 0) \<le> dval (Decimal 50 0)
   \<and> dval (Decimal 50 0) < 100
   \<and> get_price_fee (Finite (Decimal 1 1000001)) (Finite (Decimal 1 0))
       = Inr (Finite (Decimal 1 999999))
   \<and> get_price_fee (Finite (Decimal 1 1000001)) (Finite (Decimal 50 0)) = Inl Overflow
   \<and> get_price_fee (Infinity False) (Finite (Decimal 0 0)) = Inl InvalidOperation"
proof -
  have "0 \<le> dval (Decimal 1 1000001)" by (simp add: dval_nonneg_iff)
  moreover have "0 \<le> dval (Decimal 1 0) \<and> dval (Decimal 1 0) \<le> dval (Decimal 50 0)
                 \<and> dval (Decimal 50 0) < 100"
    by (simp add: dval_def)
  ultimately show ?thesis
    using fee_at_the_largest_exponent fee_beyond_the_largest_exponent fee_of_infinity_at_0
    by simp
qed

text \<open>
  C5, as the code has it. Whenever the rate and the exact product of amount and rate
  (coefficients multiplied, exponents added) fit the decimal context, the fee is returned
  and is exactly \<open>amount * (rate / 100)\<close>. The amount 1.0 at rate 2 has the fee 0.020, and
  1.0 minus that fee is 0.980.
\<close>

theorem fee_exact_where_it_fits:
  assumes "fits r" and "fits (Decimal (coeff a * coeff r) (expo a + expo r))"
  shows "(\<exists>f. get_price_fee (Finite a) (Finite r) = Inr (Finite f)
              \<and> dval f = dval a * (dval r / 100))
       \<and> get_price_fee (Finite (Decimal 10 (-1))) (Finite (Decimal 2 0))
           = Inr (Finite (Decimal 20 (-3)))
       \<and> dsub (Finite (Decimal 10 (-1))) (Finite (Decimal 20 (-3)))
           = Inr (Finite (Decimal 980 (-3)))
       \<and> dval (Decimal 980 (-3)) = 98 / 100"
  using fee_exact [OF assms] fee_of_1_at_2 net_of_1_at_2 by (simp add: dval_def)

lemma fits_small:
  assumes "\<bar>c\<bar> < 10 ^ context_prec" and "Etiny + 2 \<le> e" and "e + int context_prec \<le> Emax + 1"
  shows "fits (Decimal c e)"
proof -
  have "nat \<bar>c\<bar> < 10 ^ context_prec" using assms(1) by (simp add: nat_less_iff)
  then have d: "ndigits (nat \<bar>c\<bar>) \<le> context_prec"
    using context_prec_pos by (rule ndigits_small)
  then have "adjusted (Decimal c e) \<le> Emax" using assms(3) by (simp add: adjusted_def)
  with d assms(2) show ?thesis by (simp add: fits_def)
qed

theorem fee_exact_where_it_fits_witness:
  "fits (Decimal 2 0)
   \<and> fits (Decimal (coeff (Decimal 10 (-1)) * coeff (Decimal 2 0))
                    (expo (Decimal 10 (-1)) + expo (Decimal 2 0)))
   \<and> (\<exists>f. get_price_fee (Finite (Decimal 10 (-1))) (Finite (Decimal 2 0)) = Inr (Finite f)
          \<and> dval f = 2 / 100)"
proof -
  have h1: "fits (Decimal 2 0)"
    by (rule fits_small) (simp_all add: context_consts)
  have h2: "fits (Decimal (coeff (Decimal 10 (-1)) * coeff (Decimal 2 0))
                          (expo (Decimal 10 (-1)) + expo (Decimal 2 0)))"
    by (simp, rule fits_small) (simp_all add: context_consts)
  show ?thesis
    using h1 h2 fee_exact_where_it_fits [OF h1 h2] by (simp add: dval_def)
qed

text \<open>
  The claim C5 as stated fails: amount and rate both 1.00000000000001 (15 digits each) are
  in range, the exact fee has 29 significant digits, and the fee returned is that product
  rounded to 28 digits.
\<close>

theorem fee_rounds_long_products:
  "0 \<le> dval (Decimal 100000000000001 (-14))
   \<and> dval (Decimal 100000000000001 (-14)) < 100
   \<and> get_price_fee (Finite (Decimal 100000000000001 (-14)))
                    (Finite (Decimal 100000000000001 (-14)))
       = Inr (Finite (Decimal 1000000000000020000000000000 (-29)))
   \<and> dval (Decimal 1000000000000020000000000000 (-29))
       \<noteq> dval (Decimal 100000000000001 (-14)) * (dval (Decimal 100000000000001 (-14)) / 100)"
  by (simp add: fee_15_digits dval_def)

text \<open>
  C3, as the code has it. The fee computation checks no range. On a finite amount and a
  finite rate the only exception it raises is \<open>Overflow\<close>; and for a rate below 0 or of
  100 or more, whenever the rate and the exact product of amount and rate fit the
  decimal context, the fee is returned and is exactly \<open>amount * (rate / 100)\<close>: at least
  the amount when the amount is non-negative and the rate 100 or more, at most 0 when
  the amount is non-negative and the rate negative.
\<close>

theorem fee_checks_no_range:
  "(get_price_fee (Finite a) (Finite r) = Inl e \<longrightarrow> e = Overflow)
   \<and> ((dval r < 0 \<or> 100 \<le> dval r) \<and> fits r
        \<and> fits (Decimal (coeff a * coeff r) (expo a + expo r)) \<longrightarrow>
       (\<exists>f. get_price_fee (Finite a) (Finite r) = Inr (Finite f)
            \<and> dval f = dval a * (dval r / 100)
            \<and> (0 \<le> dval a \<and> 100 \<le> dval r \<longrightarrow> dval a \<le> dval f)
            \<and> (0 \<le> dval a \<and> dval r < 0 \<longrightarrow> dval f \<le> 0)))"
proof (intro conjI impI)
  assume "get_price_fee (Finite a) (Finite r) = Inl e"
  then show "e = Overflow" by (rule fee_only_overflow)
next
  assume h: "(dval r < 0 \<or> 100 \<le> dval r) \<and> fits r
             \<and> fits (Decimal (coeff a * coeff r) (expo a + expo r))"
  then obtain f where f: "get_price_fee (Finite a) (Finite r) = Inr (Finite f)"
      "dval f = dval a * (dval r / 100)"
    using fee_exact [of r a] by blast
  have big: "dval a \<le> dval f" if "0 \<le> dval a" "100 \<le> dval r"
  proof -
    have "dval a * 1 \<le> dval a * (dval r / 100)"
      using that by (intro mult_left_mono) simp_all
    then show ?thesis by (simp add: f(2))
  qed
  have neg: "dval f \<le> 0" if "0 \<le> dval a" "dval r < 0"
  proof -
    have "dval r / 100 \<le> 0" using that(2) by simp
    with that(1) have "dval a * (dval r / 100) \<le> 0" by (rule mult_nonneg_nonpos)
    then show ?thesis by (simp add: f(2))
  qed
  show "\<exists>f. get_price_fee (Finite a) (Finite r) = Inr (Finite f)
            \<and> dval f = dval a * (dval r / 100)
            \<and> (0 \<le> dval a \<and> 100 \<le> dval r \<longrightarrow> dval a \<le> dval f)
            \<and> (0 \<le> dval a \<and> dval r < 0 \<longrightarrow> dval f \<le> 0)"
    using f big neg by blast
qed

theorem fee_checks_no_range_witness:
  "get_price_fee (Finite (Decimal 1 1000001)) (Finite (Decimal 150 0)) = Inl Overflow
   \<and> 100 \<le> dval (Decimal 150 0) \<and> fits (Decimal 150 0)
   \<and> fits (Decimal (coeff (Decimal 1 0) * coeff (Decimal 150 0))
                    (expo (Decimal 1 0) + expo (Decimal 150 0)))
   \<and> (\<exists>f. get_price_fee (Finite (Decimal 1 0)) (Finite (Decimal 150 0)) = Inr (Finite f)
          \<and> dval f = 15 / 10 \<and> dval (Decimal 1 0) \<le> dval f)"
proof -
  have q: "ddiv100 (Finite (Decimal 150 0)) = Inr (Finite (Decimal 15 (-1)))"
    by (simp add: dfix_plain finite_result_def context_consts)
  have "dfix (Decimal 15 1000000) = Inl Overflow"
    by (simp add: dfix_def Let_def ndigits.simps context_consts)
  then have o: "get_price_fee (Finite (Decimal 1 1000001)) (Finite (Decimal 150 0)) = Inl Overflow"
    unfolding get_price_fee_def q by (simp add: finite_result_def)
  have h1: "100 \<le> dval (Decimal 150 0)" and a: "0 \<le> dval (Decimal 1 0)"
    by (simp_all add: dval_def)
  have h2: "fits (Decimal 150 0)"
    by (rule fits_small) (simp_all add: context_consts)
  have h3: "fits (Decimal (coeff (Decimal 1 0) * coeff (Decimal 150 0))
                          (expo (Decimal 1 0) + expo (Decimal 150 0)))"
    by (simp, rule fits_small) (simp_all add: context_consts)
  have "\<exists>e. get_price_fee (Finite (Decimal 1 1000001)) (Finite (Decimal 150 0)) = Inl e
            \<and> e = Overflow"
    using o fee_checks_no_range [of "Decimal 1 1000001" "Decimal 150 0" Overflow] by blast
  moreover obtain f where "get_price_fee (Finite (Decimal 1 0)) (Finite (Decimal 150 0)) = Inr (Finite f)"
      and "dval f = dval (Decimal 1 0) * (dval (Decimal 150 0) / 100)"
      and "dval (Decimal 1 0) \<le> dval f"
    using fee_checks_no_range [of "Decimal 1 0" "Decimal 150 0"] h1 h2 h3 a by blast
  moreover have "dval (Decimal 1 0) * (dval (Decimal 150 0) / 100) = 15 / 10"
    by (simp add: dval_def)
  ultimately show ?thesis using h1 h2 h3 by auto
qed

text \<open>
  The claim C3 as stated fails: the rates 150 and -50 are outside \<open>[0, 100)\<close>, and the fee
  computation returns 1.5 and -0.5 for the amount 1.
\<close>

theorem fee_of_out_of_range_rates:
  "100 \<le> dval (Decimal 150 0) \<and> dval (Decimal (-50) 0) < 0
   \<and> get_price_fee (Finite (Decimal 1 0)) (Finite (Decimal 150 0))
       = Inr (Finite (Decimal 15 (-1)))
   \<and> get_price_fee (Finite (Decimal 1 0)) (Finite (Decimal (-50) 0))
       = Inr (Finite (Decimal (-5) (-1)))"
  by (simp add: fee_of_1_at_150 fee_of_1_at_minus_50 dval_def)

text \<open>
  C6, as the code has it. For a non-negative amount that the decimal context holds (at
  most 28 digits, exponent at least \<open>Etiny\<close>, most significant digit at most at \<open>Emax\<close>)
  and a finite rate in \<open>[0, 100)\<close>, the fee is returned, the subtraction of the fee from
  the amount is returned, and this net amount is non-negative.
\<close>

theorem net_amount_nonneg_where_amount_fits:
  assumes "0 \<le> dval a" and "ndigits (nat \<bar>coeff a\<bar>) \<le> context_prec"
      and "Etiny \<le> expo a" and "adjusted a \<le> Emax"
      and "0 \<le> dval r" and "dval r < 100"
  shows "\<exists>f n. get_price_fee (Finite a) (Finite r) = Inr (Finite f)
               \<and> dsub (Finite a) (Finite f) = Inr (Finite n) \<and> 0 \<le> dval n"
proof -
  from assms(6) have "dval r \<le> 100" by simp
  with assms(1-5) show ?thesis using fee_and_net [of a r] by blast
qed

theorem net_amount_nonneg_where_amount_fits_witness:
  "get_price_fee (Finite (Decimal 10 (-1))) (Finite (Decimal 2 0)) = Inr (Finite (Decimal 20 (-3)))
   \<and> (\<exists>f n. get_price_fee (Finite (Decimal 10 (-1))) (Finite (Decimal 2 0)) = Inr (Finite f)
           \<and> dsub (Finite (Decimal 10 (-1))) (Finite f) = Inr (Finite n) \<and> 0 \<le> dval n)"
proof -
  have h1: "0 \<le> dval (Decimal 10 (-1))" by (simp add: dval_def)
  have h2: "ndigits (nat \<bar>coeff (Decimal 10 (-1))\<bar>) \<le> context_prec"
    by (simp add: ndigits.simps context_prec_def)
  have h3: "Etiny \<le> expo (Decimal 10 (-1))" by (simp add: context_consts)
  have h4: "adjusted (Decimal 10 (-1)) \<le> Emax"
    by (simp add: adjusted_def ndigits.simps context_consts)
  have h5: "0 \<le> dval (Decimal 2 0)" and h6: "dval (Decimal 2 0) < 100"
    by (simp_all add: dval_def)
  show ?thesis
    using net_amount_nonneg_where_amount_fits [OF h1 h2 h3 h4 h5 h6] fee_of_1_at_2 by simp
qed

text \<open>
  The claim C6 as stated fails: the amount 10000000000000000000000000008 (29 digits) is
  non-negative, the rate 99.99999999999999999999999999 is in \<open>[0, 100)\<close>, the fee is
  rounded up to 28 digits past the amount, and the net amount is -2.
\<close>

theorem net_amount_negative_beyond_precision:
  "0 \<le> dval (Decimal 10000000000000000000000000008 0)
   \<and> 0 \<le> dval (Decimal 9999999999999999999999999999 (-26))
   \<and> dval (Decimal 9999999999999999999999999999 (-26)) < 100
   \<and> get_price_fee (Finite (Decimal 10000000000000000000000000008 0))
                    (Finite (Decimal 9999999999999999999999999999 (-26)))
       = Inr (Finite (Decimal 1000000000000000000000000001 1))
   \<and> dsub (Finite (Decimal 10000000000000000000000000008 0))
          (Finite (Decimal 1000000000000000000000000001 1))
       = Inr (Finite (Decimal (-2) 0))
   \<and> dval (Decimal (-2) 0) < 0"
  using fee_29_digits net_29_digits by (simp add: dval_def dfix_plain finite_result_def context_consts)

section \<open>Release\<close>

lemma entry_of_amount: "entry_of a f ''amount'' = Some (JNum (Finite a))"
  by (simp add: entry_of_def)

lemma entry_of_fee: "entry_of a f ''fee'' = Some (JNum (Finite f))"
  by (simp add: entry_of_def)

lemma release_outputs_unbound:
  "release_outputs None (request_of (r # reqs)) acc = Inl NameError"
  by (cases r) (simp add: request_of_def entry_of_amount entry_of_fee to_Decimal_def)





text \<open>
  C8 at the request \<^verbatim>\<open>{"vendorA": {"amount": 1.0, "fee": 2}}\<close> for an invoice that is
  found: in the module as written the loop raises \<open>NameError\<close> at its first entry, no
  output is planned and \<open>wallet.send\<close> is not called.
\<close>

theorem release_raises_name_error:
  "release_invoice settings3 views_globals send_ok [invoice1] ''alice'' ''0a1b''
     (Some (request_of [(''vendorA'', Decimal 10 (-1), Decimal 2 0)]))
   = (Inl NameError, [])"
  by (simp add: release_invoice_def get_object_or_none_invoice1 views_globals_def
      release_outputs_unbound)

end
